theory Spec2Isabelle
  imports Main "HOL-Library.Word" "HOL-Library.Signed_Division"
begin

section \<open>Machine integers of the C sources\<close>

text \<open>
  \<^verbatim>\<open>int\<close> and \<^verbatim>\<open>int32_t\<close> are 32-bit words, \<^verbatim>\<open>int64_t\<close> is a 64-bit word.
  Addition, subtraction and multiplication wrap around; the value of a word as a C signed
  integer is read with \<open>sint\<close>.  C's \<^verbatim>\<open>/\<close> and \<^verbatim>\<open>%\<close> truncate towards zero
  (\<open>sdiv\<close> and \<open>smod\<close> on \<open>int\<close>).
\<close>

type_synonym int32_t = "32 word"
type_synonym int64_t = "64 word"

definition sdiv32 :: "int32_t \<Rightarrow> int32_t \<Rightarrow> int32_t" where
  "sdiv32 a b = word_of_int (sint a sdiv sint b)"

definition sdiv64 :: "int64_t \<Rightarrow> int64_t \<Rightarrow> int64_t" where
  "sdiv64 a b = word_of_int (sint a sdiv sint b)"

definition smod64 :: "int64_t \<Rightarrow> int64_t \<Rightarrow> int64_t" where
  "smod64 a b = word_of_int (sint a smod sint b)"

text \<open>A kernel panic (a failed \<^verbatim>\<open>ASSERT\<close>) and the divide trap are values.\<close>

datatype error = ASSERTION_FAILED | DIVISION_BY_ZERO

definition bindE :: "error + 'a \<Rightarrow> ('a \<Rightarrow> error + 'b) \<Rightarrow> error + 'b" where
  "bindE m f = (case m of Inl e \<Rightarrow> Inl e | Inr x \<Rightarrow> f x)"

section \<open>threads/fixed-point.h\<close>

text \<open>
  The macros of the header with \<^verbatim>\<open>FIXED_POINT_FACTOR 16384\<close>, at the argument types
  the timer uses them with (\<^verbatim>\<open>int32_t\<close> and \<^verbatim>\<open>int\<close>).  Products and quotients of two
  fixed-point numbers are computed in \<^verbatim>\<open>int64_t\<close> and cast back to \<^verbatim>\<open>int32_t\<close>
  (\<open>scast\<close>, which keeps the low 32 bits).
\<close>

definition FIXED_POINT_FACTOR :: int32_t where
  "FIXED_POINT_FACTOR = 16384"

definition convert_int_to_fixed_point :: "int32_t \<Rightarrow> int32_t" where
  "convert_int_to_fixed_point n = n * FIXED_POINT_FACTOR"

definition convert_fixed_point_to_int_round_towards_zero :: "int32_t \<Rightarrow> int32_t" where
  "convert_fixed_point_to_int_round_towards_zero x = sdiv32 x FIXED_POINT_FACTOR"

definition convert_fixed_point_to_int_round_to_nearest :: "int32_t \<Rightarrow> int32_t" where
  "convert_fixed_point_to_int_round_to_nearest x =
     (if 0 \<le>s x then sdiv32 (x + sdiv32 FIXED_POINT_FACTOR 2) FIXED_POINT_FACTOR
      else sdiv32 (x - sdiv32 FIXED_POINT_FACTOR 2) FIXED_POINT_FACTOR)"

definition add_fixed_point_numbers :: "int32_t \<Rightarrow> int32_t \<Rightarrow> int32_t" where
  "add_fixed_point_numbers x y = x + y"

definition subtract_fixed_point_numbers :: "int32_t \<Rightarrow> int32_t \<Rightarrow> int32_t" where
  "subtract_fixed_point_numbers x y = x - y"

definition add_int_to_fixed_point_number :: "int32_t \<Rightarrow> int32_t \<Rightarrow> int32_t" where
  "add_int_to_fixed_point_number x n = x + convert_int_to_fixed_point n"

definition subtract_int_from_fixed_point_number :: "int32_t \<Rightarrow> int32_t \<Rightarrow> int32_t" where
  "subtract_int_from_fixed_point_number x n = x - convert_int_to_fixed_point n"

definition multiply_fixed_point_numbers :: "int32_t \<Rightarrow> int32_t \<Rightarrow> int32_t" where
  "multiply_fixed_point_numbers x y =
     scast (sdiv64 ((scast x :: int64_t) * scast y) (scast FIXED_POINT_FACTOR))"

definition divide_fixed_point_numbers :: "int32_t \<Rightarrow> int32_t \<Rightarrow> error + int32_t" where
  "divide_fixed_point_numbers x y =
     (if y = 0 then Inl DIVISION_BY_ZERO
      else Inr (scast (sdiv64 ((scast x :: int64_t) * scast FIXED_POINT_FACTOR) (scast y))))"

definition multiply_fixed_point_number_by_int :: "int32_t \<Rightarrow> int32_t \<Rightarrow> int32_t" where
  "multiply_fixed_point_number_by_int x n = x * n"

definition divide_fixed_point_number_by_int :: "int32_t \<Rightarrow> int32_t \<Rightarrow> error + int32_t" where
  "divide_fixed_point_number_by_int x n =
     (if n = 0 then Inl DIVISION_BY_ZERO else Inr (sdiv32 x n))"

section \<open>threads/thread.h: threads and the kernel state the timer works on\<close>

datatype thread_status = THREAD_RUNNING | THREAD_READY | THREAD_BLOCKED | THREAD_DYING

definition PRI_MIN :: int32_t where "PRI_MIN = 0"
definition PRI_DEFAULT :: int32_t where "PRI_DEFAULT = 31"
definition PRI_MAX :: int32_t where "PRI_MAX = 63"

text \<open>
  The fields of \<^verbatim>\<open>struct thread\<close> that the timer reads and writes, under the names the
  timer uses (\<^verbatim>\<open>nice_value\<close>, \<^verbatim>\<open>recent_cpu\<close>, \<^verbatim>\<open>priority\<close>, \<^verbatim>\<open>status\<close>).
\<close>

record thread =
  status :: thread_status
  priority :: int32_t
  nice_value :: int32_t
  recent_cpu :: int32_t

text \<open>A \<^verbatim>\<open>struct thread *\<close> is an address.\<close>

type_synonym tptr = nat

text \<open>\<^verbatim>\<open>struct sleeping_thread\<close>; the list element is the position in the list.\<close>

record sleeping_thread =
  current_thread :: tptr
  ticks_till_release :: int64_t

datatype intr_level = INTR_OFF | INTR_ON

text \<open>
  The globals: \<^verbatim>\<open>ticks\<close> and \<^verbatim>\<open>sleeping_threads\<close> of the timer, and what the timer
  reaches through \<^verbatim>\<open>thread_current()\<close>, \<^verbatim>\<open>get_idle_thread()\<close>, \<^verbatim>\<open>get_all_list()\<close>,
  \<^verbatim>\<open>LOAD_AVG\<close>, \<^verbatim>\<open>thread_mlfqs\<close> and the interrupt level.  \<open>threads\<close> is the memory
  holding the thread structures.  The ready queue, the tick statistics and the deferred
  yield flag belong to the scheduler.
\<close>

record kernel =
  ticks :: int64_t
  sleeping_threads :: "sleeping_thread list"
  threads :: "tptr \<Rightarrow> thread"
  all_list :: "tptr list"
  ready_list :: "tptr list"
  running :: tptr
  idle_thread :: tptr
  LOAD_AVG :: int32_t
  thread_mlfqs :: bool
  level :: intr_level
  idle_ticks :: int64_t
  kernel_ticks :: int64_t
  thread_ticks :: "32 word"
  time_slice :: "32 word"
  yield_on_return :: bool

text \<open>Modelled from the spec: \<^verbatim>\<open>thread_current()\<close> of \<^verbatim>\<open>threads/thread.c\<close>, which is
  not among the sources: the thread that is running.\<close>

definition thread_current :: "kernel \<Rightarrow> tptr" where
  "thread_current k = running k"

text \<open>Modelled from the spec: \<^verbatim>\<open>get_idle_thread()\<close>, not among the sources: the idle
  thread, the singleton that runs when no other thread is ready.\<close>

definition get_idle_thread :: "kernel \<Rightarrow> tptr" where
  "get_idle_thread k = idle_thread k"

text \<open>Modelled from the spec: \<^verbatim>\<open>get_all_list()\<close>, not among the sources: the list of every
  live thread.\<close>

definition get_all_list :: "kernel \<Rightarrow> tptr list" where
  "get_all_list k = all_list k"

text \<open>Modelled from the spec: \<^verbatim>\<open>intr_get_level()\<close> of the interrupt-level gate
  (\<^verbatim>\<open>threads/interrupt.c\<close> is not among the sources) queries the level.\<close>

definition intr_get_level :: "kernel \<Rightarrow> intr_level" where
  "intr_get_level k = level k"

text \<open>Modelled from the spec: \<^verbatim>\<open>intr_set_level()\<close> of the interrupt-level gate sets the
  level.\<close>

definition intr_set_level :: "intr_level \<Rightarrow> kernel \<Rightarrow> kernel" where
  "intr_set_level l k = k\<lparr>level := l\<rparr>"

text \<open>Modelled from the spec: \<^verbatim>\<open>intr_disable()\<close> of the interrupt-level gate disables
  interrupts and returns the level that was in force.\<close>

definition intr_disable :: "kernel \<Rightarrow> intr_level \<times> kernel" where
  "intr_disable k = (level k, k\<lparr>level := INTR_OFF\<rparr>)"

text \<open>Modelled from the spec: the ordered insert of the intrusive list
  (\<^verbatim>\<open>lib/kernel/list.c\<close> is not among the sources).  The new element goes in front of the
  first element that it is less than under the caller's comparator, hence behind every
  element it is not less than: equal elements keep their insertion order.\<close>

fun list_insert_ordered :: "('a \<Rightarrow> 'a \<Rightarrow> bool) \<Rightarrow> 'a \<Rightarrow> 'a list \<Rightarrow> 'a list" where
  "list_insert_ordered less_func elem [] = [elem]"
| "list_insert_ordered less_func elem (e # es) =
     (if less_func elem e then elem # e # es else e # list_insert_ordered less_func elem es)"

text \<open>Modelled from the spec: the ready queue is ordered by priority descending, ties by
  insertion order (\<^verbatim>\<open>threads/thread.c\<close> is not among the sources).\<close>

definition higher_priority :: "kernel \<Rightarrow> tptr \<Rightarrow> tptr \<Rightarrow> bool" where
  "higher_priority k a b = (priority (threads k b) <s priority (threads k a))"

text \<open>Modelled from the spec: scheduler selection pops the front of the ready queue, or picks
  the idle thread when the queue is empty; the selected thread becomes the running one.\<close>

definition schedule :: "kernel \<Rightarrow> kernel" where
  "schedule k =
     (case ready_list k of
        [] \<Rightarrow> k\<lparr>running := idle_thread k,
                threads := (threads k)(idle_thread k :=
                   (threads k (idle_thread k))\<lparr>status := THREAD_RUNNING\<rparr>)\<rparr>
      | t # ts \<Rightarrow> k\<lparr>running := t, ready_list := ts,
                threads := (threads k)(t := (threads k t)\<lparr>status := THREAD_RUNNING\<rparr>)\<rparr>)"

text \<open>Modelled from the spec: \<^verbatim>\<open>block()\<close> has the precondition that the caller is RUNNING
  and that interrupts are disabled (a violation is a fatal assertion); it sets the status
  to BLOCKED and invokes the scheduler.\<close>

definition thread_block :: "kernel \<Rightarrow> error + kernel" where
  "thread_block k =
     (if level k \<noteq> INTR_OFF \<or> status (threads k (running k)) \<noteq> THREAD_RUNNING
      then Inl ASSERTION_FAILED
      else Inr (schedule (k\<lparr>threads := (threads k)(running k :=
                  (threads k (running k))\<lparr>status := THREAD_BLOCKED\<rparr>)\<rparr>)))"

text \<open>Modelled from the spec: \<^verbatim>\<open>unblock(t)\<close> has the precondition that \<open>t\<close> is BLOCKED; it
  sets READY and inserts \<open>t\<close> into the ready queue in priority order.  It does not preempt.\<close>

definition thread_unblock :: "tptr \<Rightarrow> kernel \<Rightarrow> error + kernel" where
  "thread_unblock t k =
     (if status (threads k t) \<noteq> THREAD_BLOCKED then Inl ASSERTION_FAILED
      else Inr (k\<lparr>ready_list := list_insert_ordered (higher_priority k) t (ready_list k),
                  threads := (threads k)(t := (threads k t)\<lparr>status := THREAD_READY\<rparr>)\<rparr>))"

text \<open>Modelled from the spec: \<^verbatim>\<open>yield()\<close> moves the current thread to READY, inserts it
  ordered into the ready queue, and reschedules.\<close>

definition thread_yield :: "kernel \<Rightarrow> kernel" where
  "thread_yield k =
     schedule (k\<lparr>ready_list := list_insert_ordered (higher_priority k) (running k) (ready_list k),
                 threads := (threads k)(running k :=
                   (threads k (running k))\<lparr>status := THREAD_READY\<rparr>)\<rparr>)"

text \<open>Modelled from the spec: per tick the running thread is charged to a time bucket (the
  idle bucket for the idle thread), and the deferred-yield flag is set once the running
  thread has used its time slice.  The length of the slice is a field of the state.\<close>

definition thread_tick :: "kernel \<Rightarrow> kernel" where
  "thread_tick k =
     (let k1 = (if running k = idle_thread k then k\<lparr>idle_ticks := idle_ticks k + 1\<rparr>
                else k\<lparr>kernel_ticks := kernel_ticks k + 1\<rparr>);
          k2 = k1\<lparr>thread_ticks := thread_ticks k1 + 1\<rparr>
      in if time_slice k2 \<le> thread_ticks k2 then k2\<lparr>yield_on_return := True\<rparr> else k2)"

section \<open>devices/timer.c\<close>

text \<open>\<^verbatim>\<open>TIMER_FREQ\<close> is defined in \<^verbatim>\<open>devices/timer.h\<close>; the README gives its value, 100.\<close>

definition TIMER_FREQ :: int64_t where
  "TIMER_FREQ = 100"

definition timer_ticks :: "kernel \<Rightarrow> int64_t \<times> kernel" where
  "timer_ticks k =
     (case intr_disable k of (old_level, k1) \<Rightarrow>
        let t = ticks k1 in (t, intr_set_level old_level k1))"

definition order_sleeping_threads :: "sleeping_thread \<Rightarrow> sleeping_thread \<Rightarrow> bool" where
  "order_sleeping_threads thread_one thread_two =
     (ticks_till_release thread_one <s ticks_till_release thread_two)"

text \<open>
  \<^verbatim>\<open>timer_sleep\<close> up to and including \<^verbatim>\<open>thread_block()\<close>, where the caller is suspended.
  The result carries the local \<^verbatim>\<open>old_level\<close>, which lives on the caller's stack until the
  caller runs again.
\<close>

definition timer_sleep_enter :: "int64_t \<Rightarrow> kernel \<Rightarrow> error + (intr_level \<times> kernel)" where
  "timer_sleep_enter n k =
     (case timer_ticks k of (start, k1) \<Rightarrow>
        if intr_get_level k1 \<noteq> INTR_ON then Inl ASSERTION_FAILED
        else
          let temp_sleeping_thread =
                \<lparr>current_thread = thread_current k1, ticks_till_release = start + n\<rparr>
          in case intr_disable k1 of (old_level, k2) \<Rightarrow>
               let k3 = k2\<lparr>sleeping_threads :=
                          list_insert_ordered order_sleeping_threads temp_sleeping_thread
                            (sleeping_threads k2)\<rparr>
               in bindE (thread_block k3) (\<lambda>k4. Inr (old_level, k4)))"

text \<open>
  The whole of \<^verbatim>\<open>timer_sleep\<close>.  Between \<^verbatim>\<open>thread_block()\<close> and the statement after it
  the rest of the system runs; \<open>others\<close> is what it does to the state until the caller is
  switched back in.
\<close>

definition timer_sleep :: "(kernel \<Rightarrow> kernel) \<Rightarrow> int64_t \<Rightarrow> kernel \<Rightarrow> error + kernel" where
  "timer_sleep others n k =
     bindE (timer_sleep_enter n k)
       (\<lambda>(old_level, k4). Inr (intr_set_level old_level (others k4)))"

text \<open>\<^verbatim>\<open>check_thread_status1\<close>, with the counter passed through \<^verbatim>\<open>aux\<close> as an argument.\<close>

definition check_thread_status1 :: "kernel \<Rightarrow> tptr \<Rightarrow> int32_t \<Rightarrow> int32_t" where
  "check_thread_status1 k t count =
     (if t \<noteq> get_idle_thread k \<and>
         (status (threads k t) = THREAD_RUNNING \<or> status (threads k t) = THREAD_READY)
      then count + 1 else count)"

text \<open>Modelled from the spec: \<^verbatim>\<open>thread_foreach\<close> applies the action to every thread of the
  all-threads list, in list order.\<close>

fun thread_foreach :: "(tptr \<Rightarrow> 'a \<Rightarrow> 'a) \<Rightarrow> tptr list \<Rightarrow> 'a \<Rightarrow> 'a" where
  "thread_foreach func [] aux = aux"
| "thread_foreach func (t # ts) aux = thread_foreach func ts (func t aux)"

definition count_running_or_ready_threads1 :: "kernel \<Rightarrow> int32_t \<times> kernel" where
  "count_running_or_ready_threads1 k =
     (case intr_disable k of (old_level, k1) \<Rightarrow>
        let count = thread_foreach (check_thread_status1 k1) (get_all_list k1) 0
        in (count, intr_set_level old_level k1))"

definition calculate_load_avg1 :: "kernel \<Rightarrow> error + (int32_t \<times> kernel)" where
  "calculate_load_avg1 k =
     (let fifty_nine_fp = convert_int_to_fixed_point 59;
          sixty_fp = convert_int_to_fixed_point 60
      in bindE (divide_fixed_point_numbers fifty_nine_fp sixty_fp) (\<lambda>part1.
           let part1_divided = multiply_fixed_point_numbers part1 (LOAD_AVG k)
           in bindE (divide_fixed_point_numbers (convert_int_to_fixed_point 1) sixty_fp) (\<lambda>part2.
                case count_running_or_ready_threads1 k of (count, k1) \<Rightarrow>
                  let part2_mul = multiply_fixed_point_number_by_int part2 count;
                      load_avg_new_fp = add_fixed_point_numbers part1_divided part2_mul
                  in Inr (load_avg_new_fp, k1))))"

definition update_load_avg :: "kernel \<Rightarrow> error + kernel" where
  "update_load_avg k =
     bindE (calculate_load_avg1 k) (\<lambda>(load_avg_new, k1). Inr (k1\<lparr>LOAD_AVG := load_avg_new\<rparr>))"

fun update_recent_cpu_loop :: "tptr list \<Rightarrow> kernel \<Rightarrow> error + kernel" where
  "update_recent_cpu_loop [] k = Inr k"
| "update_recent_cpu_loop (temp_thread # rest) k =
     (let load_avg_times_two =
            multiply_fixed_point_numbers (LOAD_AVG k) (convert_int_to_fixed_point 2);
          denominator =
            add_fixed_point_numbers load_avg_times_two (convert_int_to_fixed_point 1)
      in bindE (divide_fixed_point_numbers load_avg_times_two denominator) (\<lambda>ratio.
           let product = multiply_fixed_point_numbers ratio (recent_cpu (threads k temp_thread));
               addnums = add_int_to_fixed_point_number product
                           (nice_value (threads k temp_thread))
           in update_recent_cpu_loop rest
                (k\<lparr>threads := (threads k)(temp_thread :=
                     (threads k temp_thread)\<lparr>recent_cpu := addnums\<rparr>)\<rparr>)))"

definition update_recent_cpu_for_all_threads :: "kernel \<Rightarrow> error + kernel" where
  "update_recent_cpu_for_all_threads k = update_recent_cpu_loop (get_all_list k) k"

text \<open>
  \<^verbatim>\<open>calculate_priority()\<close> is not among the sources.  It is a parameter that may read the
  kernel state and the loop variable \<^verbatim>\<open>temp_thread\<close> (which a macro could capture).
\<close>

type_synonym calc_prio = "kernel \<Rightarrow> tptr \<Rightarrow> int32_t"

fun update_priority_loop :: "calc_prio \<Rightarrow> tptr list \<Rightarrow> kernel \<Rightarrow> kernel" where
  "update_priority_loop calculate_priority [] k = k"
| "update_priority_loop calculate_priority (temp_thread # rest) k =
     update_priority_loop calculate_priority rest
       (if temp_thread \<noteq> get_idle_thread k
        then k\<lparr>threads := (threads k)(temp_thread :=
               (threads k temp_thread)\<lparr>priority := calculate_priority k temp_thread\<rparr>)\<rparr>
        else k)"

definition update_priority_for_all_threads :: "calc_prio \<Rightarrow> kernel \<Rightarrow> kernel" where
  "update_priority_for_all_threads calculate_priority k =
     update_priority_loop calculate_priority (get_all_list k) k"

text \<open>
  The loop at the end of \<^verbatim>\<open>timer_interrupt\<close>.  Its argument is the part of the list from
  \<^verbatim>\<open>temp_elm\<close> on.  Every element visited before \<^verbatim>\<open>temp_elm\<close> has been removed, so
  \<^verbatim>\<open>list_remove(temp_elm)\<close> takes the front element off and leaves the rest as the list;
  \<^verbatim>\<open>list_next\<close> of the removed element is the element that followed it.
\<close>

fun wake_sleeping_threads :: "sleeping_thread list \<Rightarrow> kernel \<Rightarrow> error + kernel" where
  "wake_sleeping_threads [] k = Inr k"
| "wake_sleeping_threads (temp_sleeping_thread # rest) k =
     (if ticks_till_release temp_sleeping_thread \<le>s ticks k
      then bindE (thread_unblock (current_thread temp_sleeping_thread)
                    (k\<lparr>sleeping_threads := rest\<rparr>))
             (wake_sleeping_threads rest)
      else Inr k)"

definition timer_interrupt :: "calc_prio \<Rightarrow> kernel \<Rightarrow> error + kernel" where
  "timer_interrupt calculate_priority k0 =
     (let k1 = k0\<lparr>ticks := ticks k0 + 1\<rparr>;
          k2 = thread_tick k1;
          cur = thread_current k2;
          k3 = (if cur \<noteq> get_idle_thread k2
                then k2\<lparr>threads := (threads k2)(cur :=
                       (threads k2 cur)\<lparr>recent_cpu :=
                          add_int_to_fixed_point_number (recent_cpu (threads k2 cur)) 1\<rparr>)\<rparr>
                else k2)
      in bindE (if smod64 (ticks k3) TIMER_FREQ = 0
                then bindE (update_load_avg k3) update_recent_cpu_for_all_threads
                else Inr k3) (\<lambda>k4.
           let k5 = (if smod64 (ticks k4) 4 = 0
                     then update_priority_for_all_threads calculate_priority k4 else k4)
           in wake_sleeping_threads (sleeping_threads k5) k5))"

section \<open>Runs of the system\<close>

text \<open>
  What can happen between two observations of the kernel state: a timer interrupt, the
  running thread calling \<^verbatim>\<open>timer_sleep\<close> (up to its suspension), the running thread
  yielding, and the running thread setting the interrupt level (as the last statement of
  \<^verbatim>\<open>timer_sleep\<close> does when a sleeper runs again).
\<close>

datatype event = Tick | Sleep int64_t | Yield | SetLevel intr_level

fun step :: "calc_prio \<Rightarrow> event \<Rightarrow> kernel \<Rightarrow> error + kernel" where
  "step cp Tick k = timer_interrupt cp k"
| "step cp (Sleep n) k = bindE (timer_sleep_enter n k) (\<lambda>(old_level, k'). Inr k')"
| "step cp Yield k = Inr (thread_yield k)"
| "step cp (SetLevel l) k = Inr (intr_set_level l k)"

fun run :: "calc_prio \<Rightarrow> event list \<Rightarrow> kernel \<Rightarrow> error + kernel" where
  "run cp [] k = Inr k"
| "run cp (e # es) k = bindE (step cp e k) (run cp es)"

fun is_Tick :: "event \<Rightarrow> bool" where
  "is_Tick Tick = True"
| "is_Tick _ = False"

section \<open>The initial sleep list and the ordering of the sleep list\<close>

text \<open>\<^verbatim>\<open>static struct list sleeping_threads = LIST_INITIALIZER (sleeping_threads)\<close>: the
  list is empty at boot.\<close>

definition sleeping_threads_init :: "sleeping_thread list" where
  "sleeping_threads_init = []"

text \<open>Ascending wake ticks, as C compares \<^verbatim>\<open>int64_t\<close> values.\<close>

definition sleep_list_ordered :: "sleeping_thread list \<Rightarrow> bool" where
  "sleep_list_ordered l =
     sorted_wrt (\<lambda>a b. ticks_till_release a \<le>s ticks_till_release b) l"

section \<open>The stages of the interrupt handler\<close>

text \<open>
  Names for the three parts of \<^verbatim>\<open>timer_interrupt\<close> that precede the walk over the sleep
  list: the per-tick accounting, the once-per-second block and the every-fourth-tick block.
  \<open>timer_interrupt_stages\<close> below shows that \<open>timer_interrupt\<close> is their composition.
\<close>

definition tick_charge :: "kernel \<Rightarrow> kernel" where
  "tick_charge k0 =
     (let k1 = k0\<lparr>ticks := ticks k0 + 1\<rparr>;
          k2 = thread_tick k1;
          cur = thread_current k2
      in if cur \<noteq> get_idle_thread k2
         then k2\<lparr>threads := (threads k2)(cur :=
                (threads k2 cur)\<lparr>recent_cpu :=
                   add_int_to_fixed_point_number (recent_cpu (threads k2 cur)) 1\<rparr>)\<rparr>
         else k2)"

definition per_second :: "kernel \<Rightarrow> error + kernel" where
  "per_second k3 =
     (if smod64 (ticks k3) TIMER_FREQ = 0
      then bindE (update_load_avg k3) update_recent_cpu_for_all_threads
      else Inr k3)"

definition every_fourth :: "calc_prio \<Rightarrow> kernel \<Rightarrow> kernel" where
  "every_fourth cp k4 =
     (if smod64 (ticks k4) 4 = 0 then update_priority_for_all_threads cp k4 else k4)"

text \<open>The state in which \<^verbatim>\<open>timer_sleep\<close> calls the scheduler: interrupts off, the record
  inserted, the caller marked BLOCKED.\<close>

definition blocked_state :: "int64_t \<Rightarrow> kernel \<Rightarrow> kernel" where
  "blocked_state n k =
     k\<lparr>level := INTR_OFF,
       sleeping_threads := list_insert_ordered order_sleeping_threads
          \<lparr>current_thread = running k, ticks_till_release = ticks k + n\<rparr> (sleeping_threads k),
       threads := (threads k)(running k := (threads k (running k))\<lparr>status := THREAD_BLOCKED\<rparr>)\<rparr>"

text \<open>The records of the sleep list belong to distinct threads, all of them BLOCKED
  (the list is intrusive: a thread that sleeps is blocked and cannot sleep again).\<close>

definition sleepers_blocked :: "kernel \<Rightarrow> bool" where
  "sleepers_blocked k \<longleftrightarrow>
     distinct (map current_thread (sleeping_threads k)) \<and>
     (\<forall>r \<in> set (sleeping_threads k). status (threads k (current_thread r)) = THREAD_BLOCKED)"

text \<open>What the MLFQS updates leave alone: everything the scheduler and the sleep facility
  depend on.\<close>

definition sched_unchanged :: "kernel \<Rightarrow> kernel \<Rightarrow> bool" where
  "sched_unchanged k k' \<longleftrightarrow>
     ticks k' = ticks k \<and> sleeping_threads k' = sleeping_threads k \<and>
     all_list k' = all_list k \<and> ready_list k' = ready_list k \<and> running k' = running k \<and>
     idle_thread k' = idle_thread k \<and> thread_mlfqs k' = thread_mlfqs k \<and> level k' = level k \<and>
     (\<forall>t. status (threads k' t) = status (threads k t) \<and>
          nice_value (threads k' t) = nice_value (threads k t))"

text \<open>Thread \<open>t\<close> sleeps with wake tick \<open>w\<close>: it is BLOCKED, neither running nor queued as
  ready, and its only record in the sleep list is \<open>(t, w)\<close>.\<close>

definition asleep :: "tptr \<Rightarrow> int64_t \<Rightarrow> kernel \<Rightarrow> bool" where
  "asleep t w k \<longleftrightarrow>
     status (threads k t) = THREAD_BLOCKED \<and> t \<notin> set (ready_list k) \<and>
     running k \<noteq> t \<and> idle_thread k \<noteq> t \<and>
     \<lparr>current_thread = t, ticks_till_release = w\<rparr> \<in> set (sleeping_threads k) \<and>
     (\<forall>r \<in> set (sleeping_threads k). current_thread r = t \<longrightarrow> ticks_till_release r = w)"

section \<open>The MLFQS formulas in the words of the specification\<close>

text \<open>
  Signed 17.14 fixed point on the mathematical integers: a value \<open>x\<close> stands for
  \<open>x / 2 ^ 14\<close>, every result is taken back into the 32-bit signed range, and products and
  quotients are formed at full width before that, as with a 64-bit intermediate.
\<close>

definition wrap32 :: "int \<Rightarrow> int" where
  "wrap32 x = signed_take_bit 31 x"

definition fx_of_int :: "int \<Rightarrow> int" where
  "fx_of_int n = wrap32 (n * 2 ^ 14)"

definition fx_add :: "int \<Rightarrow> int \<Rightarrow> int" where
  "fx_add x y = wrap32 (x + y)"

definition fx_mul :: "int \<Rightarrow> int \<Rightarrow> int" where
  "fx_mul x y = wrap32 ((x * y) sdiv 2 ^ 14)"

definition fx_div :: "int \<Rightarrow> int \<Rightarrow> int" where
  "fx_div x y = wrap32 ((x * 2 ^ 14) sdiv y)"

definition fx_mul_int :: "int \<Rightarrow> int \<Rightarrow> int" where
  "fx_mul_int x n = wrap32 (x * n)"

definition fx_add_int :: "int \<Rightarrow> int \<Rightarrow> int" where
  "fx_add_int x n = wrap32 (x + n * 2 ^ 14)"

text \<open>\<open>ready_threads\<close> counts the threads that are RUNNING or READY, excluding idle.\<close>

definition ready_threads :: "kernel \<Rightarrow> nat" where
  "ready_threads k =
     length (filter (\<lambda>t. t \<noteq> idle_thread k \<and>
                          (status (threads k t) = THREAD_RUNNING \<or>
                           status (threads k t) = THREAD_READY)) (all_list k))"

text \<open>\<open>load_avg := (59/60) * load_avg + (1/60) * ready_threads\<close>.\<close>

definition spec_load_avg :: "int \<Rightarrow> int \<Rightarrow> int" where
  "spec_load_avg load_avg ready =
     fx_add (fx_mul (fx_div (fx_of_int 59) (fx_of_int 60)) load_avg)
            (fx_mul_int (fx_div (fx_of_int 1) (fx_of_int 60)) ready)"

text \<open>\<open>recent_cpu := (2 * load_avg) / (2 * load_avg + 1) * recent_cpu + nice\<close>.\<close>

definition spec_recent_cpu :: "int \<Rightarrow> int \<Rightarrow> int \<Rightarrow> int" where
  "spec_recent_cpu load_avg rc nice =
     fx_add_int
       (fx_mul (fx_div (fx_mul (fx_of_int 2) load_avg)
                       (fx_add (fx_mul (fx_of_int 2) load_avg) (fx_of_int 1))) rc)
       nice"

text \<open>Every tick, running thread only, unless it is the idle thread: \<open>recent_cpu += 1\<close>.\<close>

definition charged_recent_cpu :: "kernel \<Rightarrow> tptr \<Rightarrow> int" where
  "charged_recent_cpu k t =
     (if t = running k \<and> running k \<noteq> idle_thread k
      then fx_add_int (sint (recent_cpu (threads k t))) 1
      else sint (recent_cpu (threads k t)))"

text \<open>Modelled from the spec: \<^verbatim>\<open>calculate_priority()\<close> is not among the sources.  The spec
  gives, per thread, \<open>priority := PRI_MAX - (recent_cpu / 4) - (nice * 2)\<close>, then clamped to
  \<open>[PRI_MIN, PRI_MAX]\<close>, with the arithmetic in 17.14 fixed point.  The value is formed in
  fixed point with the macros of the header and converted to an integer rounding toward
  zero; the spec does not name the rounding.\<close>

definition mlfqs_priority :: "int32_t \<Rightarrow> int32_t \<Rightarrow> int32_t" where
  "mlfqs_priority rc nice =
     (let fp = subtract_int_from_fixed_point_number
                 (subtract_fixed_point_numbers (convert_int_to_fixed_point PRI_MAX)
                    (sdiv32 rc 4))
                 (nice * 2);
          p = convert_fixed_point_to_int_round_towards_zero fp
      in if p <s PRI_MIN then PRI_MIN else if PRI_MAX <s p then PRI_MAX else p)"

text \<open>Modelled from the spec: \<^verbatim>\<open>calculate_priority()\<close> computes the formula for the thread
  that is being updated.\<close>

definition calculate_priority_mlfqs :: calc_prio where
  "calculate_priority_mlfqs k t =
     mlfqs_priority (recent_cpu (threads k t)) (nice_value (threads k t))"

section \<open>Observations of a run, and an example state\<close>

definition thread_after_tick :: "calc_prio \<Rightarrow> kernel \<Rightarrow> tptr \<Rightarrow> error + thread" where
  "thread_after_tick cp k t = bindE (timer_interrupt cp k) (\<lambda>k'. Inr (threads k' t))"

definition sleep_outcome ::
  "int64_t \<Rightarrow> kernel \<Rightarrow> error + (sleeping_thread list \<times> thread_status)" where
  "sleep_outcome n k =
     bindE (timer_sleep_enter n k)
       (\<lambda>(lv, k'). Inr (sleeping_threads k', status (threads k' (running k))))"

definition status_after_run ::
  "calc_prio \<Rightarrow> event list \<Rightarrow> kernel \<Rightarrow> tptr \<Rightarrow> error + (int64_t \<times> thread_status)" where
  "status_after_run cp es k t =
     bindE (run cp es k) (\<lambda>k'. Inr (ticks k', status (threads k' t)))"

text \<open>
  A state at tick 99, one tick before a second boundary (which is also a fourth tick):
  thread 0 is the idle thread, thread 1 runs, threads 2 and 3 sleep until ticks 100 and 110,
  thread 4 is ready.  The MLFQS flag is off.
\<close>

definition example_threads :: "tptr \<Rightarrow> thread" where
  "example_threads =
     (\<lambda>t. \<lparr>status = THREAD_DYING, priority = 0, nice_value = 0, recent_cpu = 0\<rparr>)
     (0 := \<lparr>status = THREAD_BLOCKED, priority = 0, nice_value = 0, recent_cpu = 0\<rparr>,
      1 := \<lparr>status = THREAD_RUNNING, priority = 31, nice_value = 0, recent_cpu = 0\<rparr>,
      2 := \<lparr>status = THREAD_BLOCKED, priority = 31, nice_value = 5, recent_cpu = 16384\<rparr>,
      3 := \<lparr>status = THREAD_BLOCKED, priority = 31, nice_value = 0, recent_cpu = 0\<rparr>,
      4 := \<lparr>status = THREAD_READY, priority = 20, nice_value = 0, recent_cpu = 0\<rparr>)"

definition example_kernel :: kernel where
  "example_kernel =
     \<lparr>ticks = 99,
      sleeping_threads = [\<lparr>current_thread = 2, ticks_till_release = 100\<rparr>,
                          \<lparr>current_thread = 3, ticks_till_release = 110\<rparr>],
      threads = example_threads,
      all_list = [0, 1, 2, 3, 4],
      ready_list = [4],
      running = 1,
      idle_thread = 0,
      LOAD_AVG = 0,
      thread_mlfqs = False,
      level = INTR_ON,
      idle_ticks = 0,
      kernel_ticks = 99,
      thread_ticks = 1,
      time_slice = 4,
      yield_on_return = False\<rparr>"

section \<open>Evaluation of the model on concrete states\<close>

text \<open>The equations to unfold when the model is run on a concrete state.\<close>

lemmas model_defs =
  timer_interrupt_def thread_tick_def
  thread_current_def get_idle_thread_def Let_def add_int_to_fixed_point_number_def
  convert_int_to_fixed_point_def FIXED_POINT_FACTOR_def smod64_def TIMER_FREQ_def
  update_load_avg_def calculate_load_avg1_def divide_fixed_point_numbers_def
  multiply_fixed_point_numbers_def sdiv64_def count_running_or_ready_threads1_def
  intr_disable_def intr_set_level_def intr_get_level_def get_all_list_def
  check_thread_status1_def
  multiply_fixed_point_number_by_int_def add_fixed_point_numbers_def
  update_recent_cpu_for_all_threads_def update_priority_for_all_threads_def
  calculate_priority_mlfqs_def mlfqs_priority_def thread_unblock_def higher_priority_def
  subtract_int_from_fixed_point_number_def subtract_fixed_point_numbers_def
  convert_fixed_point_to_int_round_towards_zero_def sdiv32_def PRI_MAX_def PRI_MIN_def
  signed_divide_int_def signed_modulo_int_def
  timer_sleep_enter_def timer_ticks_def thread_block_def schedule_def
  order_sleeping_threads_def timer_sleep_def thread_yield_def
  word_sless_alt word_sle_eq

lemmas example_defs = example_kernel_def example_threads_def

lemmas fx_defs = wrap32_def fx_of_int_def fx_add_def fx_mul_def fx_div_def fx_mul_int_def
  fx_add_int_def signed_divide_int_def

section \<open>Fixed-point conversion round trip\<close>

lemma sint_convert_int_to_fixed_point:
  assumes "- (2 ^ 31) \<le> sint n * 16384" and "sint n * 16384 < 2 ^ 31"
  shows "sint (convert_int_to_fixed_point n) = sint n * 16384"
  using assms unfolding convert_int_to_fixed_point_def FIXED_POINT_FACTOR_def
  by (simp add: sint_word_ariths signed_take_bit_int_eq_self)

lemma sdiv_nonneg: "0 \<le> a \<Longrightarrow> 0 < b \<Longrightarrow> a sdiv b = a div (b::int)"
  by (cases "a = 0") (simp_all add: signed_divide_int_def)

lemma sdiv_nonpos: "a \<le> 0 \<Longrightarrow> 0 < b \<Longrightarrow> a sdiv b = - ((- a) div (b::int))"
  by (cases "a = 0") (simp_all add: signed_divide_int_def)

lemma round_towards_zero_roundtrip:
  assumes "- (2 ^ 31) \<le> sint n * 16384" and "sint n * 16384 < 2 ^ 31"
  shows "convert_fixed_point_to_int_round_towards_zero (convert_int_to_fixed_point n) = n"
proof -
  have X: "sint (convert_int_to_fixed_point n) = sint n * 16384"
    using assms by (rule sint_convert_int_to_fixed_point)
  have "(sint n * 16384) sdiv 16384 = sint n"
  proof (cases "0 \<le> sint n")
    case True
    then show ?thesis by (simp add: sdiv_nonneg)
  next
    case False
    then have "sint n * 16384 \<le> 0" by simp
    then show ?thesis using sdiv_nonpos [of "sint n * 16384" 16384] by simp
  qed
  then show ?thesis
    by (simp add: convert_fixed_point_to_int_round_towards_zero_def sdiv32_def X
        FIXED_POINT_FACTOR_def)
qed

lemma half_factor: "sdiv32 FIXED_POINT_FACTOR 2 = 8192"
  by (simp add: sdiv32_def FIXED_POINT_FACTOR_def)

lemma round_to_nearest_roundtrip:
  assumes "- (2 ^ 31) \<le> sint n * 16384" and "sint n * 16384 < 2 ^ 31"
    and "n \<noteq> - 131072"
  shows "convert_fixed_point_to_int_round_to_nearest (convert_int_to_fixed_point n) = n"
proof -
  let ?x = "convert_int_to_fixed_point n"
  have X: "sint ?x = sint n * 16384"
    using assms(1,2) by (rule sint_convert_int_to_fixed_point)
  show ?thesis
  proof (cases "0 \<le> sint n")
    case True
    then have pos: "0 \<le>s ?x" by (simp add: word_sle_eq X)
    have "sint (?x + 8192) = sint n * 16384 + 8192"
      using assms(2) True by (simp add: sint_word_ariths X signed_take_bit_int_eq_self)
    moreover have "(sint n * 16384 + 8192) sdiv 16384 = sint n"
      using True by (simp add: sdiv_nonneg)
    ultimately show ?thesis
      using pos
      by (simp add: convert_fixed_point_to_int_round_to_nearest_def half_factor sdiv32_def
          FIXED_POINT_FACTOR_def)
  next
    case False
    then have neg: "\<not> 0 \<le>s ?x" by (simp add: word_sle_eq X)
    have "sint n \<noteq> - 131072"
    proof
      assume "sint n = - 131072"
      then have "word_of_int (sint n) = (word_of_int (- 131072) :: int32_t)" by simp
      then show False using assms(3) by simp
    qed
    then have lo: "- 131071 \<le> sint n" using assms(1) by simp
    have "sint (?x - 8192) = sint n * 16384 - 8192"
      using lo False by (simp add: sint_word_ariths X signed_take_bit_int_eq_self)
    moreover have "(sint n * 16384 - 8192) sdiv 16384 = sint n"
      using False sdiv_nonpos [of "sint n * 16384 - 8192" 16384] by simp
    ultimately show ?thesis
      using neg
      by (simp add: convert_fixed_point_to_int_round_to_nearest_def half_factor sdiv32_def
          FIXED_POINT_FACTOR_def)
  qed
qed

section \<open>Properties of the timer model\<close>

lemma bindE_Inr_iff: "bindE m f = Inr y \<longleftrightarrow> (\<exists>x. m = Inr x \<and> f x = Inr y)"
  by (cases m) (simp_all add: bindE_def)

lemma bindE_Inr [simp]: "bindE (Inr x) f = f x"
  by (simp add: bindE_def)

lemma bindE_Inl [simp]: "bindE (Inl e) f = Inl e"
  by (simp add: bindE_def)

lemma thread_unblock_Inr:
  "thread_unblock t k = Inr k' \<Longrightarrow>
     status (threads k t) = THREAD_BLOCKED \<and>
     k' = k\<lparr>ready_list := list_insert_ordered (higher_priority k) t (ready_list k),
            threads := (threads k)(t := (threads k t)\<lparr>status := THREAD_READY\<rparr>)\<rparr>"
  by (auto simp: thread_unblock_def split: if_splits)

lemma wake_frame:
  "wake_sleeping_threads l k = Inr k' \<Longrightarrow>
     ticks k' = ticks k \<and> all_list k' = all_list k \<and> running k' = running k \<and>
     idle_thread k' = idle_thread k \<and> LOAD_AVG k' = LOAD_AVG k \<and>
     thread_mlfqs k' = thread_mlfqs k \<and> level k' = level k"
proof (induction l arbitrary: k)
  case Nil
  then show ?case by simp
next
  case (Cons e es)
  show ?case
  proof (cases "ticks_till_release e \<le>s ticks k")
    case True
    with Cons.prems obtain k1 where u: "thread_unblock (current_thread e) (k\<lparr>sleeping_threads := es\<rparr>) = Inr k1"
      and r: "wake_sleeping_threads es k1 = Inr k'"
      by (auto simp: bindE_Inr_iff)
    from Cons.IH [OF r] thread_unblock_Inr [OF u] show ?thesis
      by simp
  next
    case False
    with Cons.prems show ?thesis by simp
  qed
qed

lemma wake_sleeping:
  "wake_sleeping_threads l k = Inr k' \<Longrightarrow> sleeping_threads k = l \<Longrightarrow>
     sleeping_threads k' = dropWhile (\<lambda>e. ticks_till_release e \<le>s ticks k) l"
proof (induction l arbitrary: k)
  case Nil
  then show ?case by simp
next
  case (Cons e es)
  show ?case
  proof (cases "ticks_till_release e \<le>s ticks k")
    case True
    with Cons.prems obtain k1 where u: "thread_unblock (current_thread e) (k\<lparr>sleeping_threads := es\<rparr>) = Inr k1"
      and r: "wake_sleeping_threads es k1 = Inr k'"
      by (auto simp: bindE_Inr_iff)
    from thread_unblock_Inr [OF u] have "sleeping_threads k1 = es" "ticks k1 = ticks k" by simp_all
    with Cons.IH [OF r] True show ?thesis by simp
  next
    case False
    with Cons.prems show ?thesis by simp
  qed
qed

lemma wake_threads:
  "wake_sleeping_threads l k = Inr k' \<Longrightarrow>
     threads k' t =
       (if t \<in> current_thread ` set (takeWhile (\<lambda>e. ticks_till_release e \<le>s ticks k) l)
        then (threads k t)\<lparr>status := THREAD_READY\<rparr> else threads k t)"
proof (induction l arbitrary: k)
  case Nil
  then show ?case by simp
next
  case (Cons e es)
  show ?case
  proof (cases "ticks_till_release e \<le>s ticks k")
    case True
    with Cons.prems obtain k1 where u: "thread_unblock (current_thread e) (k\<lparr>sleeping_threads := es\<rparr>) = Inr k1"
      and r: "wake_sleeping_threads es k1 = Inr k'"
      by (auto simp: bindE_Inr_iff)
    from thread_unblock_Inr [OF u] have k1: "ticks k1 = ticks k"
      "threads k1 = (threads k)(current_thread e := (threads k (current_thread e))\<lparr>status := THREAD_READY\<rparr>)" by simp_all
    with Cons.IH [OF r] True show ?thesis by auto
  next
    case False
    with Cons.prems show ?thesis by simp
  qed
qed

lemma sched_unchanged_refl: "sched_unchanged k k"
  by (simp add: sched_unchanged_def)

lemma sched_unchanged_trans:
  "sched_unchanged k k1 \<Longrightarrow> sched_unchanged k1 k2 \<Longrightarrow> sched_unchanged k k2"
  by (simp add: sched_unchanged_def)

lemma update_priority_loop_unchanged:
  "sched_unchanged k (update_priority_loop cp l k) \<and>
   LOAD_AVG (update_priority_loop cp l k) = LOAD_AVG k \<and>
   (\<forall>t. recent_cpu (threads (update_priority_loop cp l k) t) = recent_cpu (threads k t))"
proof (induction l arbitrary: k)
  case Nil
  then show ?case by (simp add: sched_unchanged_def)
next
  case (Cons t ts)
  let ?k1 = "k\<lparr>threads := (threads k)(t := (threads k t)\<lparr>priority := cp k t\<rparr>)\<rparr>"
  show ?case
  proof (cases "t \<noteq> get_idle_thread k")
    case True
    have "sched_unchanged k ?k1" by (simp add: sched_unchanged_def)
    with Cons.IH [of ?k1] True show ?thesis
      by (auto simp: sched_unchanged_def)
  next
    case False
    with Cons.IH [of k] show ?thesis by simp
  qed
qed

lemma update_recent_cpu_loop_unchanged:
  "update_recent_cpu_loop l k = Inr k' \<Longrightarrow>
     sched_unchanged k k' \<and> LOAD_AVG k' = LOAD_AVG k \<and>
     (\<forall>t. priority (threads k' t) = priority (threads k t))"
proof (induction l arbitrary: k)
  case Nil
  then show ?case by (simp add: sched_unchanged_def)
next
  case (Cons t ts)
  from Cons.prems obtain ratio where
    r: "update_recent_cpu_loop ts
          (k\<lparr>threads := (threads k)(t := (threads k t)\<lparr>recent_cpu :=
             add_int_to_fixed_point_number
               (multiply_fixed_point_numbers ratio (recent_cpu (threads k t)))
               (nice_value (threads k t))\<rparr>)\<rparr>) = Inr k'"
    by (auto simp: bindE_Inr_iff Let_def)
  from Cons.IH [OF r] show ?case
    by (auto simp: sched_unchanged_def)
qed

lemma update_load_avg_unchanged:
  "update_load_avg k = Inr k' \<Longrightarrow>
     sched_unchanged k k' \<and> threads k' = threads k"
  by (auto simp: update_load_avg_def calculate_load_avg1_def bindE_Inr_iff Let_def
      count_running_or_ready_threads1_def intr_disable_def intr_set_level_def
      sched_unchanged_def split: prod.splits)

lemma thread_tick_unchanged:
  "sched_unchanged k (thread_tick k) \<and> threads (thread_tick k) = threads k \<and>
   LOAD_AVG (thread_tick k) = LOAD_AVG k"
  by (simp add: thread_tick_def Let_def sched_unchanged_def)

lemma timer_interrupt_split:
  assumes "timer_interrupt cp k = Inr k'"
  obtains k5 where "sched_unchanged (k\<lparr>ticks := ticks k + 1\<rparr>) k5"
    and "wake_sleeping_threads (sleeping_threads k) k5 = Inr k'"
proof -
  let ?k1 = "k\<lparr>ticks := ticks k + 1\<rparr>"
  let ?k2 = "thread_tick ?k1"
  let ?cur = "thread_current ?k2"
  let ?k3 = "if ?cur \<noteq> get_idle_thread ?k2
             then ?k2\<lparr>threads := (threads ?k2)(?cur :=
                    (threads ?k2 ?cur)\<lparr>recent_cpu :=
                       add_int_to_fixed_point_number (recent_cpu (threads ?k2 ?cur)) 1\<rparr>)\<rparr>
             else ?k2"
  from assms obtain k4 where
    sec: "(if smod64 (ticks ?k3) TIMER_FREQ = 0
           then bindE (update_load_avg ?k3) update_recent_cpu_for_all_threads
           else Inr ?k3) = Inr k4"
    and wk: "wake_sleeping_threads
               (sleeping_threads (if smod64 (ticks k4) 4 = 0
                  then update_priority_for_all_threads cp k4 else k4))
               (if smod64 (ticks k4) 4 = 0
                  then update_priority_for_all_threads cp k4 else k4) = Inr k'"
    unfolding timer_interrupt_def Let_def bindE_Inr_iff by blast
  let ?k5 = "if smod64 (ticks k4) 4 = 0 then update_priority_for_all_threads cp k4 else k4"
  have u12: "sched_unchanged ?k1 ?k2"
    using thread_tick_unchanged [of ?k1] by simp
  have u23: "sched_unchanged ?k2 ?k3"
    by (simp add: sched_unchanged_def)
  have u34: "sched_unchanged ?k3 k4"
  proof (cases "smod64 (ticks ?k3) TIMER_FREQ = 0")
    case True
    with sec obtain ka where a: "update_load_avg ?k3 = Inr ka"
      and b: "update_recent_cpu_for_all_threads ka = Inr k4"
      by (auto simp: bindE_Inr_iff)
    from update_load_avg_unchanged [OF a]
      update_recent_cpu_loop_unchanged [OF b [unfolded update_recent_cpu_for_all_threads_def]]
    show ?thesis by (blast intro: sched_unchanged_trans)
  next
    case False
    with sec show ?thesis by (auto simp: sched_unchanged_refl)
  qed
  have u45: "sched_unchanged k4 ?k5"
    using update_priority_loop_unchanged [of k4 cp "get_all_list k4"]
    by (simp add: update_priority_for_all_threads_def sched_unchanged_refl)
  have u15: "sched_unchanged ?k1 ?k5"
    using u12 u23 u34 u45 by (blast intro: sched_unchanged_trans)
  then have "sleeping_threads ?k5 = sleeping_threads k"
    by (simp add: sched_unchanged_def)
  with wk have "wake_sleeping_threads (sleeping_threads k) ?k5 = Inr k'" by simp
  with u15 that show thesis by blast
qed

lemma timer_interrupt_ticks:
  assumes "timer_interrupt cp k = Inr k'"
  shows "ticks k' = ticks k + 1"
proof -
  from assms obtain k5 where u: "sched_unchanged (k\<lparr>ticks := ticks k + 1\<rparr>) k5"
    and w: "wake_sleeping_threads (sleeping_threads k) k5 = Inr k'"
    by (rule timer_interrupt_split)
  from wake_frame [OF w] u show ?thesis by (simp add: sched_unchanged_def)
qed

lemma timer_interrupt_frame:
  assumes "timer_interrupt cp k = Inr k'"
  shows "all_list k' = all_list k \<and> running k' = running k \<and>
         idle_thread k' = idle_thread k \<and> thread_mlfqs k' = thread_mlfqs k \<and> level k' = level k"
proof -
  from assms obtain k5 where u: "sched_unchanged (k\<lparr>ticks := ticks k + 1\<rparr>) k5"
    and w: "wake_sleeping_threads (sleeping_threads k) k5 = Inr k'"
    by (rule timer_interrupt_split)
  from wake_frame [OF w] u show ?thesis by (simp add: sched_unchanged_def)
qed

lemma timer_interrupt_sleeping:
  assumes "timer_interrupt cp k = Inr k'"
  shows "sleeping_threads k' =
         dropWhile (\<lambda>e. ticks_till_release e \<le>s ticks k + 1) (sleeping_threads k)"
proof -
  from assms obtain k5 where u: "sched_unchanged (k\<lparr>ticks := ticks k + 1\<rparr>) k5"
    and w: "wake_sleeping_threads (sleeping_threads k) k5 = Inr k'"
    by (rule timer_interrupt_split)
  from u have "sleeping_threads k5 = sleeping_threads k" "ticks k5 = ticks k + 1"
    by (simp_all add: sched_unchanged_def)
  with wake_sleeping [OF w] show ?thesis by simp
qed

lemma timer_interrupt_status:
  assumes "timer_interrupt cp k = Inr k'"
  shows "status (threads k' t) =
         (if t \<in> current_thread ` set (takeWhile (\<lambda>e. ticks_till_release e \<le>s ticks k + 1)
                                          (sleeping_threads k))
          then THREAD_READY else status (threads k t))"
proof -
  from assms obtain k5 where u: "sched_unchanged (k\<lparr>ticks := ticks k + 1\<rparr>) k5"
    and w: "wake_sleeping_threads (sleeping_threads k) k5 = Inr k'"
    by (rule timer_interrupt_split)
  from u have "status (threads k5 t) = status (threads k t)" "ticks k5 = ticks k + 1"
    by (simp_all add: sched_unchanged_def)
  with wake_threads [OF w, of t] show ?thesis by simp
qed

lemma set_list_insert_ordered [simp]:
  "set (list_insert_ordered lt e l) = insert e (set l)"
  by (induction l) auto

lemma list_insert_ordered_split:
  "list_insert_ordered lt e l =
     takeWhile (\<lambda>x. \<not> lt e x) l @ e # dropWhile (\<lambda>x. \<not> lt e x) l"
  by (induction l) auto

lemma wake_ready:
  "wake_sleeping_threads l k = Inr k' \<Longrightarrow>
     set (ready_list k') =
       set (ready_list k) \<union>
       current_thread ` set (takeWhile (\<lambda>e. ticks_till_release e \<le>s ticks k) l)"
proof (induction l arbitrary: k)
  case Nil
  then show ?case by simp
next
  case (Cons e es)
  show ?case
  proof (cases "ticks_till_release e \<le>s ticks k")
    case True
    with Cons.prems obtain k1 where u: "thread_unblock (current_thread e) (k\<lparr>sleeping_threads := es\<rparr>) = Inr k1"
      and r: "wake_sleeping_threads es k1 = Inr k'"
      by (auto simp: bindE_Inr_iff)
    from thread_unblock_Inr [OF u] have "ticks k1 = ticks k"
      "set (ready_list k1) = insert (current_thread e) (set (ready_list k))" by simp_all
    with Cons.IH [OF r] True show ?thesis by auto
  next
    case False
    with Cons.prems show ?thesis by simp
  qed
qed

lemma timer_interrupt_ready:
  assumes "timer_interrupt cp k = Inr k'"
  shows "set (ready_list k') =
         set (ready_list k) \<union>
         current_thread ` set (takeWhile (\<lambda>e. ticks_till_release e \<le>s ticks k + 1)
                                 (sleeping_threads k))"
proof -
  from assms obtain k5 where u: "sched_unchanged (k\<lparr>ticks := ticks k + 1\<rparr>) k5"
    and w: "wake_sleeping_threads (sleeping_threads k) k5 = Inr k'"
    by (rule timer_interrupt_split)
  from u have "ready_list k5 = ready_list k" "ticks k5 = ticks k + 1"
    by (simp_all add: sched_unchanged_def)
  with wake_ready [OF w] show ?thesis by simp
qed

lemma word_sle_trans: "a \<le>s b \<Longrightarrow> b \<le>s c \<Longrightarrow> a \<le>s (c :: 'a::len word)"
  by (simp add: word_sle_eq)

lemma word_sless_sle_trans: "a <s b \<Longrightarrow> b \<le>s c \<Longrightarrow> a <s (c :: 'a::len word)"
  by (simp add: word_sle_eq word_sless_alt)

lemma not_word_sle: "(\<not> a \<le>s b) = (b <s (a :: 'a::len word))"
  by (auto simp: word_sle_eq word_sless_alt)

lemma not_word_sless: "(\<not> a <s b) = (b \<le>s (a :: 'a::len word))"
  by (auto simp: word_sle_eq word_sless_alt)

lemma ordered_dropWhile_future:
  "sleep_list_ordered l \<Longrightarrow>
     \<forall>e \<in> set (dropWhile (\<lambda>e. ticks_till_release e \<le>s now) l). now <s ticks_till_release e"
proof (induction l)
  case Nil
  then show ?case by simp
next
  case (Cons a l)
  show ?case
  proof (cases "ticks_till_release a \<le>s now")
    case True
    with Cons show ?thesis by (simp add: sleep_list_ordered_def)
  next
    case False
    then have "now <s ticks_till_release a" by (simp add: not_word_sle)
    with Cons.prems False show ?thesis
      by (auto simp: sleep_list_ordered_def intro: word_sless_sle_trans)
  qed
qed

lemma ordered_dropWhile: "sleep_list_ordered l \<Longrightarrow> sleep_list_ordered (dropWhile P l)"
  unfolding sleep_list_ordered_def
  by (induction l) auto

lemma ordered_list_insert_ordered:
  "sleep_list_ordered l \<Longrightarrow>
     sleep_list_ordered (list_insert_ordered order_sleeping_threads e l)"
proof (induction l)
  case Nil
  then show ?case by (simp add: sleep_list_ordered_def)
next
  case (Cons a l)
  show ?case
  proof (cases "order_sleeping_threads e a")
    case True
    then have "ticks_till_release e \<le>s ticks_till_release a"
      by (simp add: order_sleeping_threads_def word_sle_eq word_sless_alt)
    with Cons.prems True show ?thesis
      by (auto simp: sleep_list_ordered_def intro: word_sle_trans)
  next
    case False
    then have "ticks_till_release a \<le>s ticks_till_release e"
      by (simp add: order_sleeping_threads_def not_word_sless)
    with Cons False show ?thesis
      by (auto simp: sleep_list_ordered_def)
  qed
qed

lemma timer_sleep_enter_Inr:
  "timer_sleep_enter n k = Inr (lv, k') \<longleftrightarrow>
     level k = INTR_ON \<and> status (threads k (running k)) = THREAD_RUNNING \<and> lv = INTR_ON \<and>
     k' = schedule (blocked_state n k)"
  by (auto simp: timer_sleep_enter_def timer_ticks_def intr_disable_def intr_set_level_def
      intr_get_level_def thread_current_def thread_block_def bindE_Inr_iff Let_def
      blocked_state_def)

lemma timer_sleep_enter_Inl:
  "timer_sleep_enter n k = Inl e \<longleftrightarrow>
     (level k \<noteq> INTR_ON \<or> status (threads k (running k)) \<noteq> THREAD_RUNNING) \<and>
     e = ASSERTION_FAILED"
  by (auto simp: timer_sleep_enter_def timer_ticks_def intr_disable_def intr_set_level_def
      intr_get_level_def thread_current_def thread_block_def bindE_def Let_def)

lemma schedule_frame:
  "ticks (schedule k) = ticks k \<and> sleeping_threads (schedule k) = sleeping_threads k \<and>
   all_list (schedule k) = all_list k \<and> idle_thread (schedule k) = idle_thread k \<and>
   level (schedule k) = level k \<and> LOAD_AVG (schedule k) = LOAD_AVG k"
  by (simp add: schedule_def split: list.splits)

lemma schedule_running:
  "running (schedule k) = (case ready_list k of [] \<Rightarrow> idle_thread k | t # ts \<Rightarrow> t)"
  by (simp add: schedule_def split: list.splits)

lemma schedule_status:
  "status (threads (schedule k) t) =
     (if t = running (schedule k) then THREAD_RUNNING else status (threads k t))"
  by (simp add: schedule_def split: list.splits)

lemma timer_sleep_returns:
  "level k = INTR_ON \<Longrightarrow> status (threads k (running k)) = THREAD_RUNNING \<Longrightarrow>
     \<exists>k'. timer_sleep others n k = Inr k'"
  by (simp add: timer_sleep_def bindE_Inr_iff timer_sleep_enter_Inr)

lemma sint_scast_down: "sint (scast (w :: int64_t) :: int32_t) = wrap32 (sint w)"
  by (simp add: wrap32_def signed_scast_eq)

lemma sint_scast_up: "sint (scast (w :: int32_t) :: int64_t) = sint w"
  by (simp add: sint_up_scast is_up)

lemma sint32_bounds: "- (2 ^ 31) \<le> sint (w :: int32_t) \<and> sint w < 2 ^ 31"
  using sint_ge [of w] sint_lt [of w] by simp

lemma prod_bound:
  assumes "- (2 ^ 31) \<le> (a::int)" "a < 2 ^ 31" "- (2 ^ 31) \<le> (b::int)" "b < 2 ^ 31"
  shows "\<bar>a * b\<bar> \<le> 2 ^ 62"
proof -
  have "\<bar>a\<bar> \<le> 2 ^ 31" "\<bar>b\<bar> \<le> 2 ^ 31" using assms by simp_all
  then have "\<bar>a\<bar> * \<bar>b\<bar> \<le> 2 ^ 31 * 2 ^ 31"
    by (intro mult_mono) simp_all
  then show ?thesis by (simp add: abs_mult)
qed

lemma abs_le_pow62:
  assumes "\<bar>v\<bar> \<le> 2 ^ 62"
  shows "- (2 ^ 63) \<le> (v::int) \<and> v < 2 ^ 63"
proof -
  have "(2::int) ^ 62 < 2 ^ 63" by simp
  with assms show ?thesis by linarith
qed

lemma sint_mul64:
  "sint ((scast (x :: int32_t) :: int64_t) * scast (y :: int32_t)) = sint x * sint y"
proof -
  have "\<bar>sint x * sint y\<bar> \<le> 2 ^ 62"
    using sint32_bounds [of x] sint32_bounds [of y] by (intro prod_bound) simp_all
  then have "- (2 ^ 63) \<le> sint x * sint y \<and> sint x * sint y < 2 ^ 63"
    by (rule abs_le_pow62)
  then show ?thesis
    by (simp add: sint_word_mult sint_scast_up signed_take_bit_int_eq_self)
qed

lemma sint_sdiv64:
  assumes "\<bar>sint a\<bar> \<le> 2 ^ 62"
  shows "sint (sdiv64 a b) = sint a sdiv sint b"
proof -
  have "sint a sdiv sint b \<in> {- \<bar>sint a\<bar>..\<bar>sint a\<bar>}" by (rule sdiv_int_range)
  with assms have "\<bar>sint a sdiv sint b\<bar> \<le> 2 ^ 62"
    by (simp only: atLeastAtMost_iff) linarith
  then have "- (2 ^ 63) \<le> sint a sdiv sint b \<and> sint a sdiv sint b < 2 ^ 63"
    by (rule abs_le_pow62)
  then show ?thesis
    by (simp add: sdiv64_def sint_sbintrunc' signed_take_bit_int_eq_self)
qed

lemma sint_FACTOR64: "sint (scast FIXED_POINT_FACTOR :: int64_t) = 2 ^ 14"
  by (simp add: sint_scast_up FIXED_POINT_FACTOR_def)

lemma sint_multiply_fixed_point_numbers:
  "sint (multiply_fixed_point_numbers x y) = fx_mul (sint x) (sint y)"
proof -
  have "\<bar>sint x * sint y\<bar> \<le> 2 ^ 62"
    using sint32_bounds [of x] sint32_bounds [of y] by (intro prod_bound) simp_all
  then have "\<bar>sint ((scast x :: int64_t) * scast y)\<bar> \<le> 2 ^ 62"
    by (simp add: sint_mul64)
  then show ?thesis
    unfolding multiply_fixed_point_numbers_def fx_mul_def
    by (simp add: sint_scast_down sint_sdiv64 sint_mul64 sint_FACTOR64)
qed

lemma sint_divide_fixed_point_numbers:
  assumes "divide_fixed_point_numbers x y = Inr z"
  shows "sint z = fx_div (sint x) (sint y)"
proof -
  have m: "sint ((scast x :: int64_t) * scast FIXED_POINT_FACTOR) = sint x * 2 ^ 14"
    by (simp add: sint_mul64) (simp add: FIXED_POINT_FACTOR_def)
  have "\<bar>sint x * sint FIXED_POINT_FACTOR\<bar> \<le> 2 ^ 62"
    using sint32_bounds [of x] sint32_bounds [of FIXED_POINT_FACTOR]
    by (intro prod_bound) simp_all
  then have b: "\<bar>sint ((scast x :: int64_t) * scast FIXED_POINT_FACTOR)\<bar> \<le> 2 ^ 62"
    by (simp add: sint_mul64)
  from assms have "z = scast (sdiv64 ((scast x :: int64_t) * scast FIXED_POINT_FACTOR) (scast y))"
    by (simp add: divide_fixed_point_numbers_def split: if_splits)
  then show ?thesis
    unfolding fx_div_def
    by (simp add: sint_scast_down sint_sdiv64 [OF b] m sint_scast_up)
qed

lemma sint_convert: "sint (convert_int_to_fixed_point n) = fx_of_int (sint n)"
  by (simp add: convert_int_to_fixed_point_def fx_of_int_def wrap32_def sint_word_mult
      FIXED_POINT_FACTOR_def)

lemma sint_add_fixed_point_numbers:
  "sint (add_fixed_point_numbers x y) = fx_add (sint x) (sint y)"
  by (simp add: add_fixed_point_numbers_def fx_add_def wrap32_def sint_word_add)

lemma sint_multiply_by_int:
  "sint (multiply_fixed_point_number_by_int x n) = fx_mul_int (sint x) (sint n)"
  by (simp add: multiply_fixed_point_number_by_int_def fx_mul_int_def wrap32_def sint_word_mult)

lemma wrap32_idem: "wrap32 (wrap32 x) = wrap32 x"
  by (simp only: wrap32_def signed_take_bit_signed_take_bit min.idem)

lemma wrap32_add_right: "wrap32 (x + wrap32 y) = wrap32 (x + y)"
proof -
  have "wrap32 (x + wrap32 y) = wrap32 (wrap32 x + wrap32 (wrap32 y))"
    by (simp only: wrap32_def signed_take_bit_add)
  also have "\<dots> = wrap32 (wrap32 x + wrap32 y)"
    by (simp only: wrap32_idem)
  also have "\<dots> = wrap32 (x + y)"
    by (simp only: wrap32_def signed_take_bit_add)
  finally show ?thesis .
qed

lemma wrap32_mult_right: "wrap32 (x * wrap32 y) = wrap32 (x * y)"
proof -
  have "wrap32 (x * wrap32 y) = wrap32 (wrap32 x * wrap32 (wrap32 y))"
    by (simp only: wrap32_def signed_take_bit_mult)
  also have "\<dots> = wrap32 (wrap32 x * wrap32 y)"
    by (simp only: wrap32_idem)
  also have "\<dots> = wrap32 (x * y)"
    by (simp only: wrap32_def signed_take_bit_mult)
  finally show ?thesis .
qed

lemma sint_add_int:
  "sint (add_int_to_fixed_point_number x n) = fx_add_int (sint x) (sint n)"
proof -
  have "sint (add_int_to_fixed_point_number x n) = wrap32 (sint x + wrap32 (sint n * 16384))"
    by (simp add: add_int_to_fixed_point_number_def wrap32_def sint_word_add
        convert_int_to_fixed_point_def sint_word_mult FIXED_POINT_FACTOR_def)
  then show ?thesis
    by (simp only: wrap32_add_right fx_add_int_def) simp
qed

lemma timer_interrupt_stages:
  "timer_interrupt cp k =
     bindE (per_second (tick_charge k))
       (\<lambda>k4. wake_sleeping_threads (sleeping_threads (every_fourth cp k4)) (every_fourth cp k4))"
  by (simp add: timer_interrupt_def tick_charge_def per_second_def every_fourth_def Let_def)

lemma thread_foreach_count:
  "thread_foreach (check_thread_status1 k) l c =
     c + of_nat (length (filter (\<lambda>t. t \<noteq> idle_thread k \<and>
                          (status (threads k t) = THREAD_RUNNING \<or>
                           status (threads k t) = THREAD_READY)) l))"
  by (induction l arbitrary: c) (auto simp: check_thread_status1_def get_idle_thread_def)

lemma foreach_count_ready:
  "thread_foreach (check_thread_status1 (k\<lparr>level := INTR_OFF\<rparr>)) (all_list k) 0 =
     of_nat (ready_threads k)"
  unfolding thread_foreach_count ready_threads_def by simp

lemma count_running_or_ready_threads1_eq:
  "count_running_or_ready_threads1 k = (of_nat (ready_threads k), k)"
  unfolding count_running_or_ready_threads1_def intr_disable_def intr_set_level_def
    get_all_list_def Let_def prod.case
  apply simp
  apply (simp only: foreach_count_ready)
  done

lemma sint_of_nat32: "sint (of_nat n :: int32_t) = wrap32 (int n)"
proof -
  have "sint (word_of_int (int n) :: int32_t) = wrap32 (int n)"
    unfolding sint_sbintrunc' wrap32_def by simp
  then show ?thesis by simp
qed

lemma update_load_avg_sint:
  assumes "update_load_avg k = Inr k'"
  shows "sint (LOAD_AVG k') = spec_load_avg (sint (LOAD_AVG k)) (int (ready_threads k))"
proof -
  from assms obtain part1 part2 where
    p1: "divide_fixed_point_numbers (convert_int_to_fixed_point 59)
           (convert_int_to_fixed_point 60) = Inr part1"
    and p2: "divide_fixed_point_numbers (convert_int_to_fixed_point 1)
           (convert_int_to_fixed_point 60) = Inr part2"
    and la: "LOAD_AVG k' =
       add_fixed_point_numbers (multiply_fixed_point_numbers part1 (LOAD_AVG k))
         (multiply_fixed_point_number_by_int part2 (of_nat (ready_threads k)))"
    by (auto simp: update_load_avg_def calculate_load_avg1_def bindE_Inr_iff Let_def
        count_running_or_ready_threads1_eq)
  have s1: "sint part1 = fx_div (fx_of_int 59) (fx_of_int 60)"
    using sint_divide_fixed_point_numbers [OF p1] by (simp add: sint_convert)
  have s2: "sint part2 = fx_div (fx_of_int 1) (fx_of_int 60)"
    using sint_divide_fixed_point_numbers [OF p2] by (simp add: sint_convert)
  show ?thesis
    unfolding la spec_load_avg_def
    by (simp add: sint_add_fixed_point_numbers sint_multiply_fixed_point_numbers
        sint_multiply_by_int s1 s2 sint_of_nat32)
      (simp add: fx_mul_int_def wrap32_mult_right)
qed

lemma tick_charge_globals:
  "ticks (tick_charge k) = ticks k + 1 \<and>
   sleeping_threads (tick_charge k) = sleeping_threads k \<and>
   all_list (tick_charge k) = all_list k \<and> ready_list (tick_charge k) = ready_list k \<and>
   running (tick_charge k) = running k \<and> idle_thread (tick_charge k) = idle_thread k \<and>
   LOAD_AVG (tick_charge k) = LOAD_AVG k \<and> thread_mlfqs (tick_charge k) = thread_mlfqs k \<and>
   level (tick_charge k) = level k"
  by (simp add: tick_charge_def thread_tick_def thread_current_def get_idle_thread_def Let_def)

lemma tick_charge_threads:
  "threads (tick_charge k) t =
     (if t = running k \<and> running k \<noteq> idle_thread k
      then (threads k t)\<lparr>recent_cpu :=
             add_int_to_fixed_point_number (recent_cpu (threads k t)) 1\<rparr>
      else threads k t)"
  by (simp add: tick_charge_def thread_tick_def thread_current_def get_idle_thread_def Let_def)

lemma tick_charge_status: "status (threads (tick_charge k) t) = status (threads k t)"
  by (simp add: tick_charge_threads)

lemma ready_threads_tick_charge: "ready_threads (tick_charge k) = ready_threads k"
  by (simp add: ready_threads_def tick_charge_globals tick_charge_status)

lemma update_recent_cpu_loop_sint:
  assumes "update_recent_cpu_loop l k = Inr k'" and "distinct l"
  shows "sint (recent_cpu (threads k' t)) =
           (if t \<in> set l
            then spec_recent_cpu (sint (LOAD_AVG k)) (sint (recent_cpu (threads k t)))
                   (sint (nice_value (threads k t)))
            else sint (recent_cpu (threads k t)))"
  using assms
proof (induction l arbitrary: k)
  case Nil
  then show ?case by simp
next
  case (Cons u us)
  let ?l2 = "multiply_fixed_point_numbers (LOAD_AVG k) (convert_int_to_fixed_point 2)"
  let ?den = "add_fixed_point_numbers ?l2 (convert_int_to_fixed_point 1)"
  from Cons.prems(1) obtain ratio where
    d: "divide_fixed_point_numbers ?l2 ?den = Inr ratio"
    and r: "update_recent_cpu_loop us
          (k\<lparr>threads := (threads k)(u := (threads k u)\<lparr>recent_cpu :=
             add_int_to_fixed_point_number
               (multiply_fixed_point_numbers ratio (recent_cpu (threads k u)))
               (nice_value (threads k u))\<rparr>)\<rparr>) = Inr k'"
    by (auto simp: bindE_Inr_iff Let_def)
  have l2: "sint ?l2 = fx_mul (fx_of_int 2) (sint (LOAD_AVG k))"
    by (simp add: sint_multiply_fixed_point_numbers sint_convert fx_mul_def mult.commute)
  have ratio: "sint ratio =
      fx_div (fx_mul (fx_of_int 2) (sint (LOAD_AVG k)))
             (fx_add (fx_mul (fx_of_int 2) (sint (LOAD_AVG k))) (fx_of_int 1))"
    using sint_divide_fixed_point_numbers [OF d]
    by (simp add: l2 sint_add_fixed_point_numbers sint_convert)
  have new: "sint (add_int_to_fixed_point_number
               (multiply_fixed_point_numbers ratio (recent_cpu (threads k u)))
               (nice_value (threads k u))) =
             spec_recent_cpu (sint (LOAD_AVG k)) (sint (recent_cpu (threads k u)))
               (sint (nice_value (threads k u)))"
    by (simp add: sint_add_int sint_multiply_fixed_point_numbers ratio spec_recent_cpu_def)
  from Cons.prems(2) have dist: "distinct us" and notin: "u \<notin> set us" by simp_all
  from Cons.IH [OF r dist] new notin show ?case
    by auto
qed

lemma wake_thread_fields:
  assumes "wake_sleeping_threads l k = Inr k'"
  shows "recent_cpu (threads k' t) = recent_cpu (threads k t) \<and>
         priority (threads k' t) = priority (threads k t) \<and>
         nice_value (threads k' t) = nice_value (threads k t)"
  using wake_threads [OF assms, of t] by simp

lemma every_fourth_unchanged:
  "sched_unchanged k (every_fourth cp k) \<and> LOAD_AVG (every_fourth cp k) = LOAD_AVG k \<and>
   (\<forall>t. recent_cpu (threads (every_fourth cp k) t) = recent_cpu (threads k t))"
  using update_priority_loop_unchanged [of k cp "get_all_list k"]
  by (simp add: every_fourth_def update_priority_for_all_threads_def sched_unchanged_refl)

lemma per_second_unchanged:
  assumes "per_second k = Inr k'"
  shows "sched_unchanged k k' \<and> (\<forall>t. priority (threads k' t) = priority (threads k t))"
proof (cases "smod64 (ticks k) TIMER_FREQ = 0")
  case True
  with assms obtain ka where a: "update_load_avg k = Inr ka"
    and b: "update_recent_cpu_loop (get_all_list ka) ka = Inr k'"
    by (auto simp: per_second_def bindE_Inr_iff update_recent_cpu_for_all_threads_def)
  from update_load_avg_unchanged [OF a] update_recent_cpu_loop_unchanged [OF b]
  show ?thesis by (auto intro: sched_unchanged_trans)
next
  case False
  with assms show ?thesis by (auto simp: per_second_def sched_unchanged_refl)
qed

lemma per_second_load_avg:
  assumes "per_second k = Inr k'"
  shows "if smod64 (ticks k) TIMER_FREQ = 0
         then sint (LOAD_AVG k') = spec_load_avg (sint (LOAD_AVG k)) (int (ready_threads k))
         else LOAD_AVG k' = LOAD_AVG k"
proof (cases "smod64 (ticks k) TIMER_FREQ = 0")
  case True
  with assms obtain ka where a: "update_load_avg k = Inr ka"
    and b: "update_recent_cpu_loop (get_all_list ka) ka = Inr k'"
    by (auto simp: per_second_def bindE_Inr_iff update_recent_cpu_for_all_threads_def)
  from update_load_avg_sint [OF a] update_recent_cpu_loop_unchanged [OF b] True
  show ?thesis by simp
next
  case False
  with assms show ?thesis by (auto simp: per_second_def)
qed

lemma per_second_recent_cpu:
  assumes "per_second k = Inr k'" and "distinct (all_list k)"
  shows "sint (recent_cpu (threads k' t)) =
         (if smod64 (ticks k) TIMER_FREQ = 0 \<and> t \<in> set (all_list k)
          then spec_recent_cpu (sint (LOAD_AVG k')) (sint (recent_cpu (threads k t)))
                 (sint (nice_value (threads k t)))
          else sint (recent_cpu (threads k t)))"
proof (cases "smod64 (ticks k) TIMER_FREQ = 0")
  case True
  with assms obtain ka where a: "update_load_avg k = Inr ka"
    and b: "update_recent_cpu_loop (get_all_list ka) ka = Inr k'"
    by (auto simp: per_second_def bindE_Inr_iff update_recent_cpu_for_all_threads_def)
  from update_load_avg_unchanged [OF a] have ka: "all_list ka = all_list k" "threads ka = threads k"
    by (simp_all add: sched_unchanged_def)
  from update_recent_cpu_loop_unchanged [OF b] have la: "LOAD_AVG k' = LOAD_AVG ka" by simp
  from assms(2) ka have "distinct (get_all_list ka)" by (simp add: get_all_list_def)
  from update_recent_cpu_loop_sint [OF b this, of t] True ka la show ?thesis
    by (simp add: get_all_list_def)
next
  case False
  with assms show ?thesis by (auto simp: per_second_def)
qed

lemma schedule_asleep:
  assumes "status (threads k t) = THREAD_BLOCKED" and "t \<notin> set (ready_list k)"
    and "idle_thread k \<noteq> t"
    and "\<lparr>current_thread = t, ticks_till_release = w\<rparr> \<in> set (sleeping_threads k)"
    and "\<forall>r \<in> set (sleeping_threads k). current_thread r = t \<longrightarrow> ticks_till_release r = w"
  shows "asleep t w (schedule k)"
proof (cases "ready_list k")
  case Nil
  with assms show ?thesis by (auto simp: asleep_def schedule_def)
next
  case (Cons u us)
  with assms show ?thesis by (auto simp: asleep_def schedule_def)
qed

lemma asleep_enter:
  assumes "timer_sleep_enter n k = Inr (lv, k1)"
    and "running k \<noteq> idle_thread k" and "running k \<notin> set (ready_list k)"
    and "\<forall>r \<in> set (sleeping_threads k). current_thread r \<noteq> running k"
  shows "asleep (running k) (ticks k + n) k1 \<and> ticks k1 = ticks k"
proof -
  from assms(1) have k1: "k1 = schedule (blocked_state n k)"
    by (simp add: timer_sleep_enter_Inr)
  have "asleep (running k) (ticks k + n) (schedule (blocked_state n k))"
    using assms(2-4) by (intro schedule_asleep) (auto simp: blocked_state_def)
  moreover have "ticks (schedule (blocked_state n k)) = ticks k"
    by (simp add: schedule_frame blocked_state_def)
  ultimately show ?thesis by (simp add: k1)
qed

lemma asleep_sleep:
  assumes "asleep t w k" and "timer_sleep_enter m k = Inr (lv, k')"
  shows "asleep t w k'"
proof -
  from assms(2) have k': "k' = schedule (blocked_state m k)"
    by (simp add: timer_sleep_enter_Inr)
  show ?thesis
    unfolding k' using assms(1)
    by (intro schedule_asleep) (auto simp: blocked_state_def asleep_def)
qed

lemma asleep_yield:
  assumes "asleep t w k"
  shows "asleep t w (thread_yield k)"
  unfolding thread_yield_def using assms
  by (intro schedule_asleep) (auto simp: asleep_def)

lemma takeWhile_holds: "x \<in> set (takeWhile P l) \<Longrightarrow> P x"
  by (induction l) (auto split: if_splits)

lemma not_holds_dropWhile: "x \<in> set l \<Longrightarrow> \<not> P x \<Longrightarrow> x \<in> set (dropWhile P l)"
  by (induction l) auto

lemma asleep_tick:
  assumes "asleep t w k" and "timer_interrupt cp k = Inr k'" and "ticks k + 1 <s w"
  shows "asleep t w k'"
proof -
  let ?due = "\<lambda>e. ticks_till_release e \<le>s ticks k + 1"
  have notdue: "\<not> ?due \<lparr>current_thread = t, ticks_till_release = w\<rparr>"
    using assms(3) by (simp add: not_word_sle)
  have notwoken: "t \<notin> current_thread ` set (takeWhile ?due (sleeping_threads k))"
  proof
    assume "t \<in> current_thread ` set (takeWhile ?due (sleeping_threads k))"
    then obtain r where r: "r \<in> set (takeWhile ?due (sleeping_threads k))" "current_thread r = t"
      by auto
    from r(1) have "?due r" by (rule takeWhile_holds)
    moreover from r(1) have "r \<in> set (sleeping_threads k)" by (rule set_takeWhileD [THEN conjunct1])
    with assms(1) r(2) have "ticks_till_release r = w" by (simp add: asleep_def)
    ultimately show False using notdue by simp
  qed
  have st: "status (threads k' t) = THREAD_BLOCKED"
    using timer_interrupt_status [OF assms(2), of t] notwoken assms(1) by (simp add: asleep_def)
  have rd: "t \<notin> set (ready_list k')"
    using timer_interrupt_ready [OF assms(2)] notwoken assms(1) by (simp add: asleep_def)
  have fr: "running k' \<noteq> t" "idle_thread k' \<noteq> t"
    using timer_interrupt_frame [OF assms(2)] assms(1) by (simp_all add: asleep_def)
  have sl: "sleeping_threads k' = dropWhile ?due (sleeping_threads k)"
    by (rule timer_interrupt_sleeping [OF assms(2)])
  have mem: "\<lparr>current_thread = t, ticks_till_release = w\<rparr> \<in> set (sleeping_threads k')"
    unfolding sl using assms(1) notdue by (intro not_holds_dropWhile) (simp_all add: asleep_def)
  have only: "\<forall>r \<in> set (sleeping_threads k'). current_thread r = t \<longrightarrow> ticks_till_release r = w"
    unfolding sl using assms(1) by (auto simp: asleep_def dest: set_dropWhileD)
  from st rd fr mem only show ?thesis by (simp add: asleep_def)
qed

lemma step_ticks:
  assumes "step cp e k = Inr k'"
  shows "ticks k' = (if is_Tick e then ticks k + 1 else ticks k)"
proof (cases e)
  case Tick
  with assms show ?thesis by (simp add: timer_interrupt_ticks)
next
  case (Sleep m)
  with assms show ?thesis
    by (auto simp: bindE_Inr_iff timer_sleep_enter_Inr schedule_frame blocked_state_def)
next
  case Yield
  with assms show ?thesis by (auto simp: thread_yield_def schedule_frame)
next
  case (SetLevel l)
  with assms show ?thesis by (auto simp: intr_set_level_def)
qed

lemma asleep_step:
  assumes "asleep t w k" and "step cp e k = Inr k'" and "is_Tick e \<longrightarrow> ticks k + 1 <s w"
  shows "asleep t w k'"
proof (cases e)
  case Tick
  with assms show ?thesis by (auto intro: asleep_tick)
next
  case (Sleep m)
  with assms show ?thesis by (auto simp: bindE_Inr_iff intro: asleep_sleep)
next
  case Yield
  with assms show ?thesis by (auto intro: asleep_yield)
next
  case (SetLevel l)
  with assms show ?thesis by (auto simp: intr_set_level_def asleep_def)
qed

lemma sint_succ64:
  assumes "sint (x :: int64_t) < sint (w :: int64_t)"
  shows "sint (x + 1) = sint x + 1"
proof -
  have "sint w < 2 ^ 63" using sint_lt [of w] by simp
  moreover have "- (2 ^ 63) \<le> sint x" using sint_ge [of x] by simp
  ultimately have "- (2 ^ 63) \<le> sint x + 1 \<and> sint x + 1 < 2 ^ 63" using assms by linarith
  then show ?thesis by (simp add: sint_word_ariths signed_take_bit_int_eq_self)
qed

lemma asleep_run:
  assumes "asleep t w k" and "run cp es k = Inr k'"
    and "sint (ticks k) + int (length (filter is_Tick es)) < sint w"
  shows "asleep t w k' \<and> sint (ticks k') = sint (ticks k) + int (length (filter is_Tick es))"
  using assms
proof (induction es arbitrary: k)
  case Nil
  then show ?case by simp
next
  case (Cons e es)
  from Cons.prems(2) obtain k1 where s: "step cp e k = Inr k1" and r: "run cp es k1 = Inr k'"
    by (auto simp: bindE_Inr_iff)
  show ?case
  proof (cases "is_Tick e")
    case True
    from Cons.prems(3) True have lt: "sint (ticks k) < sint w" by simp
    have suc: "sint (ticks k + 1) = sint (ticks k) + 1" using lt by (rule sint_succ64)
    from Cons.prems(3) True have "ticks k + 1 <s w" by (simp add: word_sless_alt suc)
    with Cons.prems(1) s have a1: "asleep t w k1" by (auto intro: asleep_step)
    from step_ticks [OF s] True have t1: "sint (ticks k1) = sint (ticks k) + 1" by (simp add: suc)
    with Cons.prems(3) True have "sint (ticks k1) + int (length (filter is_Tick es)) < sint w"
      by simp
    from Cons.IH [OF a1 r this] t1 True show ?thesis by simp
  next
    case False
    with Cons.prems(1) s have a1: "asleep t w k1" by (auto intro: asleep_step)
    from step_ticks [OF s] False have t1: "ticks k1 = ticks k" by simp
    with Cons.prems(3) False have "sint (ticks k1) + int (length (filter is_Tick es)) < sint w"
      by simp
    from Cons.IH [OF a1 r this] t1 False show ?thesis by simp
  qed
qed

lemma smod_int_eq_0_iff: "(a::int) smod b = 0 \<longleftrightarrow> b dvd a"
  by (cases "a = 0") (simp_all add: signed_modulo_int_def mod_eq_0_iff_dvd sgn_if)

lemma smod_int_between:
  "(0 \<le> (a::int) \<longrightarrow> 0 \<le> a smod b \<and> a smod b \<le> a) \<and>
   (a \<le> 0 \<longrightarrow> a \<le> a smod b \<and> a smod b \<le> 0)"
proof -
  have u: "\<bar>a\<bar> mod \<bar>b\<bar> \<le> \<bar>a\<bar>" by (rule zmod_le_nonneg_dividend) simp
  have l: "0 \<le> \<bar>a\<bar> mod \<bar>b\<bar>"
    by (cases "b = 0") simp_all
  from u l show ?thesis
    by (auto simp: signed_modulo_int_def sgn_if)
qed

lemma smod64_eq_0_iff: "smod64 a b = 0 \<longleftrightarrow> sint b dvd sint a"
proof -
  let ?v = "sint a smod sint b"
  have "- (2 ^ 63) \<le> sint a" "sint a < 2 ^ 63"
    using sint_ge [of a] sint_lt [of a] by simp_all
  with smod_int_between [of "sint a" "sint b"]
  have r: "- (2 ^ 63) \<le> ?v \<and> ?v < 2 ^ 63"
    by (cases "0 \<le> sint a") linarith+
  have "sint (smod64 a b) = ?v"
    using r by (simp add: smod64_def sint_sbintrunc' signed_take_bit_int_eq_self)
  then have "smod64 a b = 0 \<longleftrightarrow> ?v = 0"
    using signed_eq_0_iff [of "smod64 a b", where ?'a = int] by simp
  then show ?thesis by (simp add: smod_int_eq_0_iff)
qed

lemma timer_interrupt_decompose:
  assumes "timer_interrupt cp k = Inr k'"
  obtains k4 where "per_second (tick_charge k) = Inr k4"
    and "wake_sleeping_threads (sleeping_threads (every_fourth cp k4)) (every_fourth cp k4) = Inr k'"
  using assms unfolding timer_interrupt_stages bindE_Inr_iff by blast

lemma sint_charged: "sint (recent_cpu (threads (tick_charge k) t)) = charged_recent_cpu k t"
  by (simp add: tick_charge_threads charged_recent_cpu_def sint_add_int)

lemma update_priority_loop_mlfqs:
  "priority (threads (update_priority_loop calculate_priority_mlfqs l k) t) =
     (if t \<in> set l \<and> t \<noteq> idle_thread k
      then mlfqs_priority (recent_cpu (threads k t)) (nice_value (threads k t))
      else priority (threads k t))"
proof (induction l arbitrary: k)
  case Nil
  then show ?case by simp
next
  case (Cons u us)
  let ?k1 = "k\<lparr>threads := (threads k)(u :=
               (threads k u)\<lparr>priority := calculate_priority_mlfqs k u\<rparr>)\<rparr>"
  show ?case
  proof (cases "u \<noteq> get_idle_thread k")
    case True
    then have step: "update_priority_loop calculate_priority_mlfqs (u # us) k =
               update_priority_loop calculate_priority_mlfqs us ?k1" by simp
    show ?thesis
      apply (simp only: step)
      apply (simp only: Cons.IH)
      using True
      apply (auto simp: calculate_priority_mlfqs_def get_idle_thread_def)
      done
  next
    case False
    then have step: "update_priority_loop calculate_priority_mlfqs (u # us) k =
               update_priority_loop calculate_priority_mlfqs us k" by simp
    show ?thesis
      apply (simp only: step)
      apply (simp only: Cons.IH)
      using False
      apply (auto simp: get_idle_thread_def)
      done
  qed
qed

lemma mlfqs_priority_range:
  "PRI_MIN \<le>s mlfqs_priority rc nice \<and> mlfqs_priority rc nice \<le>s PRI_MAX"
  by (simp add: mlfqs_priority_def Let_def PRI_MIN_def PRI_MAX_def word_sle_eq word_sless_alt)

lemma example_tick_result:
  "\<exists>k'. timer_interrupt calculate_priority_mlfqs example_kernel = Inr k' \<and>
        ticks k' = 100 \<and> LOAD_AVG k' = 546 \<and>
        threads k' 0 = \<lparr>status = THREAD_BLOCKED, priority = 0, nice_value = 0, recent_cpu = 0\<rparr> \<and>
        threads k' 1 = \<lparr>status = THREAD_RUNNING, priority = 62, nice_value = 0, recent_cpu = 1023\<rparr> \<and>
        threads k' 2 = \<lparr>status = THREAD_READY, priority = 51, nice_value = 5, recent_cpu = 82943\<rparr>"
  by (simp add: model_defs example_defs)

lemma example_sleep_result:
  "\<exists>k1. timer_sleep_enter 5 example_kernel = Inr (INTR_ON, k1)"
  by (simp add: model_defs example_defs)

lemma example_run_result:
  "\<exists>k1 k2. timer_sleep_enter 5 example_kernel = Inr (INTR_ON, k1) \<and>
     run calculate_priority_mlfqs [Tick, SetLevel INTR_ON, Sleep 1, Tick] k1 = Inr k2"
  by (simp add: model_defs example_defs)

lemma wake_returns:
  assumes "distinct (map current_thread l)"
    and "\<forall>r \<in> set l. status (threads k (current_thread r)) = THREAD_BLOCKED"
  shows "\<exists>k'. wake_sleeping_threads l k = Inr k'"
  using assms
proof (induction l arbitrary: k)
  case Nil
  then show ?case by simp
next
  case (Cons e es)
  show ?case
  proof (cases "ticks_till_release e \<le>s ticks k")
    case True
    let ?k1 = "k\<lparr>sleeping_threads := es,
                 ready_list := list_insert_ordered (higher_priority (k\<lparr>sleeping_threads := es\<rparr>))
                    (current_thread e) (ready_list k),
                 threads := (threads k)(current_thread e :=
                    (threads k (current_thread e))\<lparr>status := THREAD_READY\<rparr>)\<rparr>"
    from Cons.prems(2) have u: "thread_unblock (current_thread e) (k\<lparr>sleeping_threads := es\<rparr>) = Inr ?k1"
      by (simp add: thread_unblock_def)
    from Cons.prems(1) have ne: "\<forall>r \<in> set es. current_thread r \<noteq> current_thread e"
      by (auto simp: image_iff)
    from Cons.prems ne have "distinct (map current_thread es)"
      and "\<forall>r \<in> set es. status (threads ?k1 (current_thread r)) = THREAD_BLOCKED"
      by simp_all
    then have "\<exists>k'. wake_sleeping_threads es ?k1 = Inr k'" by (rule Cons.IH)
    with True u show ?thesis by simp
  next
    case False
    then show ?thesis by simp
  qed
qed

lemma update_recent_cpu_loop_returns:
  assumes "add_fixed_point_numbers
             (multiply_fixed_point_numbers (LOAD_AVG k) (convert_int_to_fixed_point 2))
             (convert_int_to_fixed_point 1) \<noteq> 0"
  shows "\<exists>k'. update_recent_cpu_loop l k = Inr k'"
  using assms
proof (induction l arbitrary: k)
  case Nil
  then show ?case by simp
next
  case (Cons u us)
  let ?l2 = "multiply_fixed_point_numbers (LOAD_AVG k) (convert_int_to_fixed_point 2)"
  let ?den = "add_fixed_point_numbers ?l2 (convert_int_to_fixed_point 1)"
  from Cons.prems obtain ratio where d: "divide_fixed_point_numbers ?l2 ?den = Inr ratio"
    by (auto simp: divide_fixed_point_numbers_def)
  let ?k1 = "k\<lparr>threads := (threads k)(u := (threads k u)\<lparr>recent_cpu :=
             add_int_to_fixed_point_number
               (multiply_fixed_point_numbers ratio (recent_cpu (threads k u)))
               (nice_value (threads k u))\<rparr>)\<rparr>"
  have "LOAD_AVG ?k1 = LOAD_AVG k" by simp
  with Cons.prems have "\<exists>k'. update_recent_cpu_loop us ?k1 = Inr k'"
    by (intro Cons.IH) simp
  with d show ?case by (simp add: Let_def)
qed

lemma wrap32_id: "- (2 ^ 31) \<le> x \<Longrightarrow> x < 2 ^ 31 \<Longrightarrow> wrap32 x = x"
  by (simp add: wrap32_def signed_take_bit_int_eq_self)

lemma spec_load_avg_bounds:
  assumes "0 \<le> la" and "la < 2 ^ 29" and "0 \<le> r" and "r < 2 ^ 20"
  shows "0 \<le> spec_load_avg la r \<and> spec_load_avg la r < 2 ^ 30 - 8192"
proof -
  have c1: "fx_div (fx_of_int 59) (fx_of_int 60) = 16110"
    by (simp add: fx_defs)
  have c2: "fx_div (fx_of_int 1) (fx_of_int 60) = 273"
    by (simp add: fx_defs)
  have q: "(16110 * la) sdiv 2 ^ 14 = (16110 * la) div 16384"
    using assms(1) by (simp add: sdiv_nonneg)
  have q0: "0 \<le> (16110 * la) div 16384" using assms(1) by simp
  have "(16110 * la) div 16384 \<le> (16384 * la) div 16384"
    using assms(1) by (intro zdiv_mono1) simp_all
  then have q1: "(16110 * la) div 16384 \<le> la" by simp
  have m: "fx_mul 16110 la = (16110 * la) div 16384"
    unfolding fx_mul_def q using q0 q1 assms(2) by (intro wrap32_id) simp_all
  have n: "fx_mul_int 273 r = 273 * r"
    unfolding fx_mul_int_def using assms(3,4) by (intro wrap32_id) simp_all
  have s: "fx_add ((16110 * la) div 16384) (273 * r) = (16110 * la) div 16384 + 273 * r"
    unfolding fx_add_def using q0 q1 assms by (intro wrap32_id) simp_all
  show ?thesis
    unfolding spec_load_avg_def c1 c2 m n s using q0 q1 assms by simp
qed

lemma update_load_avg_returns: "\<exists>k'. update_load_avg k = Inr k'"
  by (simp add: update_load_avg_def calculate_load_avg1_def divide_fixed_point_numbers_def
      convert_int_to_fixed_point_def FIXED_POINT_FACTOR_def Let_def split: prod.splits)

lemma denominator_nonzero:
  assumes "0 \<le> sint la" and "sint la < 2 ^ 30 - 8192"
  shows "add_fixed_point_numbers
           (multiply_fixed_point_numbers la (convert_int_to_fixed_point 2))
           (convert_int_to_fixed_point 1) \<noteq> 0"
proof -
  have two: "fx_of_int 2 = 32768" and one: "fx_of_int 1 = 16384"
    by (simp_all add: fx_defs)
  have "(sint la * 32768) sdiv 2 ^ 14 = (sint la * 32768) div 16384"
    using assms(1) by (simp add: sdiv_nonneg)
  also have "\<dots> = 2 * sint la" by simp
  finally have q: "(sint la * 32768) sdiv 2 ^ 14 = 2 * sint la" .
  have m: "fx_mul (sint la) 32768 = 2 * sint la"
    unfolding fx_mul_def q using assms by (intro wrap32_id) simp_all
  have a: "fx_add (2 * sint la) 16384 = 2 * sint la + 16384"
    unfolding fx_add_def using assms by (intro wrap32_id) simp_all
  have "sint (add_fixed_point_numbers
           (multiply_fixed_point_numbers la (convert_int_to_fixed_point 2))
           (convert_int_to_fixed_point 1)) = 2 * sint la + 16384"
    by (simp add: sint_add_fixed_point_numbers sint_multiply_fixed_point_numbers sint_convert
        two one m a)
  with assms(1) show ?thesis by auto
qed

lemma ready_threads_le: "ready_threads k \<le> length (all_list k)"
  by (simp add: ready_threads_def)

lemma per_second_returns:
  assumes "0 \<le> sint (LOAD_AVG k)" and "sint (LOAD_AVG k) < 2 ^ 29"
    and "length (all_list k) < 2 ^ 20"
  shows "\<exists>k'. per_second k = Inr k'"
proof (cases "smod64 (ticks k) TIMER_FREQ = 0")
  case True
  from update_load_avg_returns obtain ka where a: "update_load_avg k = Inr ka" by blast
  have "int (ready_threads k) < 2 ^ 20"
    using ready_threads_le [of k] assms(3) by simp
  with spec_load_avg_bounds [of "sint (LOAD_AVG k)" "int (ready_threads k)"] assms(1,2)
  have "0 \<le> sint (LOAD_AVG ka) \<and> sint (LOAD_AVG ka) < 2 ^ 30 - 8192"
    by (simp add: update_load_avg_sint [OF a])
  then have "add_fixed_point_numbers
           (multiply_fixed_point_numbers (LOAD_AVG ka) (convert_int_to_fixed_point 2))
           (convert_int_to_fixed_point 1) \<noteq> 0"
    by (intro denominator_nonzero) simp_all
  then have "\<exists>k'. update_recent_cpu_loop (get_all_list ka) ka = Inr k'"
    by (rule update_recent_cpu_loop_returns)
  with True a show ?thesis
    by (simp add: per_second_def update_recent_cpu_for_all_threads_def)
next
  case False
  then show ?thesis by (simp add: per_second_def)
qed

lemma timer_interrupt_returns:
  assumes "sleepers_blocked k"
    and "0 \<le> sint (LOAD_AVG k)" and "sint (LOAD_AVG k) < 2 ^ 29"
    and "length (all_list k) < 2 ^ 20"
  shows "\<exists>k'. timer_interrupt cp k = Inr k'"
proof -
  have "\<exists>k4. per_second (tick_charge k) = Inr k4"
    using assms(2-4) by (intro per_second_returns) (simp_all add: tick_charge_globals)
  then obtain k4 where p: "per_second (tick_charge k) = Inr k4" ..
  let ?k5 = "every_fourth cp k4"
  have "sched_unchanged (tick_charge k) k4"
    using per_second_unchanged [OF p] by simp
  moreover have "sched_unchanged k4 ?k5"
    using every_fourth_unchanged [of k4 cp] by simp
  ultimately have u: "sched_unchanged (tick_charge k) ?k5"
    by (rule sched_unchanged_trans)
  then have sl: "sleeping_threads ?k5 = sleeping_threads k"
    and st: "\<And>t. status (threads ?k5 t) = status (threads k t)"
    by (simp_all add: sched_unchanged_def tick_charge_globals tick_charge_status)
  from assms(1) have "distinct (map current_thread (sleeping_threads ?k5))"
    and "\<forall>r \<in> set (sleeping_threads ?k5). status (threads ?k5 (current_thread r)) = THREAD_BLOCKED"
    by (simp_all add: sleepers_blocked_def sl st)
  then have "\<exists>k'. wake_sleeping_threads (sleeping_threads ?k5) ?k5 = Inr k'"
    by (rule wake_returns)
  with p show ?thesis by (simp add: timer_interrupt_stages)
qed

section \<open>The claims\<close>

text \<open>
  Claim C1, as amended.  Let the running thread (not the idle thread, not queued as ready,
  without a record in the sleep list) call \<^verbatim>\<open>timer_sleep (n)\<close> with \<open>n > 0\<close> when the tick
  counter is \<open>s\<close>, and let \<open>s + n\<close> not exceed the largest \<^verbatim>\<open>int64_t\<close>.  Then after any
  run of the system with fewer than \<open>n\<close> timer interrupts (interleaved with sleeps and yields
  of other threads) the caller is still BLOCKED, is not in the ready queue, and its record
  with wake tick \<open>s + n\<close> is still in the sleep list; the tick counter is below \<open>s + n\<close>.
\<close>

theorem no_early_wake:
  assumes "timer_sleep_enter n k = Inr (lv, k1)"
    and "0 <s n" and "sint (ticks k) + sint n < 2 ^ 63"
    and "running k \<noteq> idle_thread k" and "running k \<notin> set (ready_list k)"
    and "\<forall>r \<in> set (sleeping_threads k). current_thread r \<noteq> running k"
    and "run cp es k1 = Inr k2"
    and "int (length (filter is_Tick es)) < sint n"
  shows "status (threads k2 (running k)) = THREAD_BLOCKED \<and>
         running k \<notin> set (ready_list k2) \<and>
         \<lparr>current_thread = running k, ticks_till_release = ticks k + n\<rparr>
            \<in> set (sleeping_threads k2) \<and>
         sint (ticks k2) < sint (ticks k) + sint n"
proof -
  from assms(1,4-6) have a: "asleep (running k) (ticks k + n) k1" and t: "ticks k1 = ticks k"
    using asleep_enter by blast+
  from assms(2) have "0 < sint n" by (simp add: word_sless_alt)
  with assms(3) sint_ge [of "ticks k"]
  have "- (2 ^ 63) \<le> sint (ticks k) + sint n \<and> sint (ticks k) + sint n < 2 ^ 63" by simp
  then have w: "sint (ticks k + n) = sint (ticks k) + sint n"
    by (simp add: sint_word_ariths signed_take_bit_int_eq_self)
  from assms(8) have "sint (ticks k1) + int (length (filter is_Tick es)) < sint (ticks k + n)"
    by (simp add: w t)
  from asleep_run [OF a assms(7) this] assms(8) t show ?thesis
    by (simp add: asleep_def)
qed

text \<open>A run from the example state: thread 1 sleeps 5 ticks at tick 99; after two timer
  interrupts and a sleep of the next thread it is still blocked.\<close>

theorem no_early_wake_witness:
  "\<exists>k1 k2. timer_sleep_enter 5 example_kernel = Inr (INTR_ON, k1) \<and>
     run calculate_priority_mlfqs [Tick, SetLevel INTR_ON, Sleep 1, Tick] k1 = Inr k2 \<and>
     status (threads k2 1) = THREAD_BLOCKED \<and>
     \<lparr>current_thread = 1, ticks_till_release = 104\<rparr> \<in> set (sleeping_threads k2)"
proof -
  from example_run_result obtain k1 k2 where
    a: "timer_sleep_enter 5 example_kernel = Inr (INTR_ON, k1)"
    and b: "run calculate_priority_mlfqs [Tick, SetLevel INTR_ON, Sleep 1, Tick] k1 = Inr k2"
    by blast
  have c: "0 <s (5 :: int64_t)" "sint (ticks example_kernel) + sint (5 :: int64_t) < 2 ^ 63"
    "running example_kernel \<noteq> idle_thread example_kernel"
    "running example_kernel \<notin> set (ready_list example_kernel)"
    "\<forall>r \<in> set (sleeping_threads example_kernel). current_thread r \<noteq> running example_kernel"
    "int (length (filter is_Tick [Tick, SetLevel INTR_ON, Sleep 1, Tick])) < sint (5 :: int64_t)"
    by (simp_all add: example_defs word_sless_alt)
  from no_early_wake [OF a c(1-5) b c(6)] a b show ?thesis
    by (auto simp: example_defs)
qed

text \<open>
  Without the bound on \<open>s + n\<close> the claim fails: at tick 99 a sleep of \<open>2 ^ 63 - 1\<close> ticks
  stores the wrapped wake tick \<open>99 + (2 ^ 63 - 1) - 2 ^ 64\<close>, which is negative, and the
  very next timer interrupt (tick 100) unblocks the caller.
\<close>

theorem no_early_wake_overflow_counterexample:
  "0 <s (9223372036854775807 :: int64_t) \<and> ticks example_kernel = 99 \<and>
   status_after_run calculate_priority_mlfqs [Sleep 9223372036854775807, Tick] example_kernel 1 =
     Inr (100, THREAD_READY)"
  by (simp add: status_after_run_def model_defs example_defs)

text \<open>
  Claim C2, as amended.  \<^verbatim>\<open>timer_sleep\<close> has no test of its argument.  For \<open>n \<le> 0\<close>, called
  with interrupts enabled by the running thread (which is not the idle thread and is not
  queued as ready), it does what it does for \<open>n > 0\<close>: it inserts the record
  \<open>(caller, s + n)\<close> into the sleep list, blocks the caller and switches to another thread.
\<close>

theorem sleep_nonpositive_blocks:
  assumes "n \<le>s 0" and "level k = INTR_ON"
    and "status (threads k (running k)) = THREAD_RUNNING"
    and "running k \<noteq> idle_thread k" and "running k \<notin> set (ready_list k)"
  shows "\<exists>k1. timer_sleep_enter n k = Inr (INTR_ON, k1) \<and>
           \<lparr>current_thread = running k, ticks_till_release = ticks k + n\<rparr>
              \<in> set (sleeping_threads k1) \<and>
           status (threads k1 (running k)) = THREAD_BLOCKED \<and>
           running k1 \<noteq> running k"
proof -
  let ?k1 = "schedule (blocked_state n k)"
  have e: "timer_sleep_enter n k = Inr (INTR_ON, ?k1)"
    using assms(2,3) by (simp add: timer_sleep_enter_Inr)
  have r: "running ?k1 \<noteq> running k"
    using assms(4,5) by (cases "ready_list k") (auto simp: schedule_running blocked_state_def)
  have m: "\<lparr>current_thread = running k, ticks_till_release = ticks k + n\<rparr>
              \<in> set (sleeping_threads ?k1)"
    by (simp add: schedule_frame blocked_state_def)
  have s: "status (threads ?k1 (running k)) = THREAD_BLOCKED"
    using r by (simp add: schedule_status) (simp add: blocked_state_def)
  from e r m s show ?thesis by blast
qed

theorem sleep_nonpositive_blocks_witness:
  "\<exists>k1. timer_sleep_enter 0 example_kernel = Inr (INTR_ON, k1) \<and>
        \<lparr>current_thread = 1, ticks_till_release = 99\<rparr> \<in> set (sleeping_threads k1) \<and>
        status (threads k1 1) = THREAD_BLOCKED \<and> running k1 \<noteq> 1"
  using sleep_nonpositive_blocks [of 0 example_kernel]
  by (simp add: example_defs word_sle_eq)

text \<open>\<^verbatim>\<open>timer_sleep (0)\<close> in the example state: the sleep list gains the record \<open>(1, 99)\<close>
  and the caller, thread 1, is BLOCKED when the scheduler takes over.\<close>

theorem sleep_zero_counterexample:
  "sleeping_threads example_kernel =
     [\<lparr>current_thread = 2, ticks_till_release = 100\<rparr>,
      \<lparr>current_thread = 3, ticks_till_release = 110\<rparr>] \<and>
   status (threads example_kernel (running example_kernel)) = THREAD_RUNNING \<and>
   sleep_outcome 0 example_kernel =
     Inr ([\<lparr>current_thread = 1, ticks_till_release = 99\<rparr>,
           \<lparr>current_thread = 2, ticks_till_release = 100\<rparr>,
           \<lparr>current_thread = 3, ticks_till_release = 110\<rparr>], THREAD_BLOCKED)"
  by (simp add: sleep_outcome_def model_defs example_defs)

text \<open>
  Claim C3.  In a state whose sleepers are distinct BLOCKED threads (and whose load average
  and thread count are far from the limits of the 32-bit arithmetic) the timer interrupt
  handler returns.  Whenever it returns it has incremented the tick counter; the sleep list
  it leaves is the old list from its first record with a wake tick in the future on
  (\<open>dropWhile\<close>), so that record and all records after it are unchanged; every record in
  front of it (\<open>takeWhile\<close>) has been removed and its thread unblocked: READY and in the
  ready queue.  When the list was ordered, no record with a wake tick less than or
  equal to the tick count remains.
\<close>

theorem timer_interrupt_wakes_due:
  "(sleepers_blocked k \<and> 0 \<le> sint (LOAD_AVG k) \<and> sint (LOAD_AVG k) < 2 ^ 29 \<and>
    length (all_list k) < 2 ^ 20 \<longrightarrow> (\<exists>k'. timer_interrupt cp k = Inr k')) \<and>
   (\<forall>k'. timer_interrupt cp k = Inr k' \<longrightarrow>
      ticks k' = ticks k + 1 \<and>
      sleeping_threads k' =
        dropWhile (\<lambda>e. ticks_till_release e \<le>s ticks k') (sleeping_threads k) \<and>
      (\<forall>e \<in> set (takeWhile (\<lambda>e. ticks_till_release e \<le>s ticks k') (sleeping_threads k)).
         status (threads k' (current_thread e)) = THREAD_READY \<and>
         current_thread e \<in> set (ready_list k')) \<and>
      (sleep_list_ordered (sleeping_threads k) \<longrightarrow>
         (\<forall>e \<in> set (sleeping_threads k'). ticks k' <s ticks_till_release e)))"
proof (intro conjI impI allI)
  assume "sleepers_blocked k \<and> 0 \<le> sint (LOAD_AVG k) \<and> sint (LOAD_AVG k) < 2 ^ 29 \<and>
    length (all_list k) < 2 ^ 20"
  then show "\<exists>k'. timer_interrupt cp k = Inr k'"
    by (intro timer_interrupt_returns) simp_all
next
  fix k'
  assume r: "timer_interrupt cp k = Inr k'"
  show t: "ticks k' = ticks k + 1" by (rule timer_interrupt_ticks [OF r])
  show s: "sleeping_threads k' =
           dropWhile (\<lambda>e. ticks_till_release e \<le>s ticks k') (sleeping_threads k)"
    unfolding t by (rule timer_interrupt_sleeping [OF r])
  show "\<forall>e \<in> set (takeWhile (\<lambda>e. ticks_till_release e \<le>s ticks k') (sleeping_threads k)).
            status (threads k' (current_thread e)) = THREAD_READY \<and>
            current_thread e \<in> set (ready_list k')"
    unfolding t using timer_interrupt_status [OF r] timer_interrupt_ready [OF r]
    by auto
  assume "sleep_list_ordered (sleeping_threads k)"
  then show "\<forall>e \<in> set (sleeping_threads k'). ticks k' <s ticks_till_release e"
    unfolding s using ordered_dropWhile_future by blast
qed

theorem timer_interrupt_wakes_due_witness:
  "sleepers_blocked example_kernel \<and>
   (\<exists>k'. timer_interrupt calculate_priority_mlfqs example_kernel = Inr k' \<and>
        ticks k' = 100 \<and>
        sleeping_threads k' = [\<lparr>current_thread = 3, ticks_till_release = 110\<rparr>] \<and>
        status (threads k' 2) = THREAD_READY \<and> 2 \<in> set (ready_list k'))"
proof -
  have b: "sleepers_blocked example_kernel \<and> 0 \<le> sint (LOAD_AVG example_kernel) \<and>
    sint (LOAD_AVG example_kernel) < 2 ^ 29 \<and> length (all_list example_kernel) < 2 ^ 20"
    by (simp add: sleepers_blocked_def example_defs)
  from timer_interrupt_wakes_due [of example_kernel calculate_priority_mlfqs] b
  obtain k' where e: "timer_interrupt calculate_priority_mlfqs example_kernel = Inr k'"
    by blast
  from timer_interrupt_wakes_due [of example_kernel calculate_priority_mlfqs] e b
  show ?thesis
    by (auto simp: example_defs word_sle_eq)
qed

text \<open>
  Claim C4.  The sleep list is ordered by ascending wake tick: the initial list is, and
  the insertion by \<^verbatim>\<open>timer_sleep\<close> and the removals by \<^verbatim>\<open>timer_interrupt\<close> keep it so.  The
  inserted record goes behind every record with a wake tick less than or equal to its
  own and in front of the records with a greater wake tick, so records with equal wake
  ticks stand in insertion order; the handler leaves a suffix of the list, so it keeps
  the relative order.
\<close>

theorem sleep_list_stays_ordered:
  "sleep_list_ordered sleeping_threads_init \<and>
   (timer_sleep_enter n k = Inr (lv, k1) \<and> sleep_list_ordered (sleeping_threads k) \<longrightarrow>
      sleep_list_ordered (sleeping_threads k1) \<and>
      (\<exists>xs ys. sleeping_threads k = xs @ ys \<and>
         sleeping_threads k1 =
           xs @ \<lparr>current_thread = running k, ticks_till_release = ticks k + n\<rparr> # ys \<and>
         (\<forall>x \<in> set xs. ticks_till_release x \<le>s ticks k + n) \<and>
         (\<forall>y \<in> set ys. ticks k + n <s ticks_till_release y))) \<and>
   (timer_interrupt cp k = Inr k2 \<and> sleep_list_ordered (sleeping_threads k) \<longrightarrow>
      sleep_list_ordered (sleeping_threads k2) \<and>
      (\<exists>xs. sleeping_threads k = xs @ sleeping_threads k2))"
proof (intro conjI impI)
  show "sleep_list_ordered sleeping_threads_init"
    by (simp add: sleeping_threads_init_def sleep_list_ordered_def)
next
  assume a: "timer_sleep_enter n k = Inr (lv, k1) \<and> sleep_list_ordered (sleeping_threads k)"
  let ?e = "\<lparr>current_thread = running k, ticks_till_release = ticks k + n\<rparr>"
  from a have k1: "sleeping_threads k1 =
      list_insert_ordered order_sleeping_threads ?e (sleeping_threads k)"
    by (simp add: timer_sleep_enter_Inr schedule_frame blocked_state_def)
  from a show "sleep_list_ordered (sleeping_threads k1)"
    unfolding k1 by (simp add: ordered_list_insert_ordered)
  let ?P = "\<lambda>x. ticks_till_release x \<le>s ticks k + n"
  have P: "(\<lambda>x. \<not> order_sleeping_threads ?e x) = ?P"
    by (simp add: order_sleeping_threads_def not_word_sless)
  have "sleeping_threads k = takeWhile ?P (sleeping_threads k) @ dropWhile ?P (sleeping_threads k)"
    by simp
  moreover have "sleeping_threads k1 =
      takeWhile ?P (sleeping_threads k) @ ?e # dropWhile ?P (sleeping_threads k)"
    unfolding k1 list_insert_ordered_split P ..
  moreover have "\<forall>x \<in> set (takeWhile ?P (sleeping_threads k)). ?P x"
    by (auto dest: takeWhile_holds)
  moreover have "\<forall>y \<in> set (dropWhile ?P (sleeping_threads k)). ticks k + n <s ticks_till_release y"
    using a ordered_dropWhile_future by blast
  ultimately show "\<exists>xs ys. sleeping_threads k = xs @ ys \<and>
         sleeping_threads k1 = xs @ ?e # ys \<and>
         (\<forall>x \<in> set xs. ticks_till_release x \<le>s ticks k + n) \<and>
         (\<forall>y \<in> set ys. ticks k + n <s ticks_till_release y)"
    by blast
next
  assume a: "timer_interrupt cp k = Inr k2 \<and> sleep_list_ordered (sleeping_threads k)"
  then have "timer_interrupt cp k = Inr k2" ..
  then have s: "sleeping_threads k2 =
         dropWhile (\<lambda>e. ticks_till_release e \<le>s ticks k + 1) (sleeping_threads k)"
    by (rule timer_interrupt_sleeping)
  from a show "sleep_list_ordered (sleeping_threads k2)"
    unfolding s by (simp add: ordered_dropWhile)
  show "\<exists>xs. sleeping_threads k = xs @ sleeping_threads k2"
    unfolding s by (metis takeWhile_dropWhile_id)
qed

theorem sleep_list_stays_ordered_witness:
  "\<exists>k1 k2. timer_sleep_enter 5 example_kernel = Inr (INTR_ON, k1) \<and>
     timer_interrupt calculate_priority_mlfqs example_kernel = Inr k2 \<and>
     sleep_list_ordered (sleeping_threads example_kernel) \<and>
     sleep_list_ordered (sleeping_threads k1) \<and> sleep_list_ordered (sleeping_threads k2)"
proof -
  from example_sleep_result obtain k1 where
    a: "timer_sleep_enter 5 example_kernel = Inr (INTR_ON, k1)" by blast
  from example_tick_result obtain k2 where
    b: "timer_interrupt calculate_priority_mlfqs example_kernel = Inr k2" by blast
  have c: "sleep_list_ordered (sleeping_threads example_kernel)"
    by (simp add: example_defs sleep_list_ordered_def word_sle_eq)
  from sleep_list_stays_ordered [of 5 example_kernel INTR_ON k1 calculate_priority_mlfqs k2]
    a b c show ?thesis by blast
qed

text \<open>
  Claim C5.  The claim requires the every-fourth-tick recomputation to happen only in MLFQS
  mode.  \<^verbatim>\<open>timer_interrupt\<close> tests \<^verbatim>\<open>ticks % 4 == 0\<close> alone: in the example state
  \<^verbatim>\<open>thread_mlfqs\<close> is false, the interrupt takes the tick counter from 99 to 100, and the
  priority of the running thread 1 is overwritten (31 becomes 62).
\<close>

theorem priority_recomputed_without_mlfqs:
  "thread_mlfqs example_kernel = False \<and> ticks example_kernel = 99 \<and>
   priority (threads example_kernel 1) = 31 \<and>
   thread_after_tick calculate_priority_mlfqs example_kernel 1 =
     Inr \<lparr>status = THREAD_RUNNING, priority = 62, nice_value = 0, recent_cpu = 1023\<rparr>"
  by (simp add: thread_after_tick_def model_defs example_defs)

text \<open>
  Claim C6.  After a timer interrupt that brings the tick counter to a multiple of
  \<^verbatim>\<open>TIMER_FREQ\<close>, \<^verbatim>\<open>LOAD_AVG\<close> is \<open>(59/60) * load_avg + (1/60) * ready_threads\<close> evaluated in
  signed 17.14 fixed point, where \<open>ready_threads\<close> is the number of threads of the
  all-threads list that are RUNNING or READY and are not the idle thread.  Otherwise
  \<^verbatim>\<open>LOAD_AVG\<close> is unchanged.
\<close>

theorem load_avg_once_per_second:
  assumes "timer_interrupt cp k = Inr k'"
  shows "if sint TIMER_FREQ dvd sint (ticks k')
         then sint (LOAD_AVG k') = spec_load_avg (sint (LOAD_AVG k)) (int (ready_threads k))
         else LOAD_AVG k' = LOAD_AVG k"
proof -
  from assms obtain k4 where p: "per_second (tick_charge k) = Inr k4"
    and w: "wake_sleeping_threads (sleeping_threads (every_fourth cp k4)) (every_fourth cp k4) = Inr k'"
    by (rule timer_interrupt_decompose)
  have "LOAD_AVG k' = LOAD_AVG k4"
    using wake_frame [OF w] every_fourth_unchanged [of k4 cp] by simp
  moreover have "ticks k' = ticks (tick_charge k)"
    using timer_interrupt_ticks [OF assms] by (simp add: tick_charge_globals)
  ultimately show ?thesis
    using per_second_load_avg [OF p]
    by (simp add: smod64_eq_0_iff tick_charge_globals ready_threads_tick_charge)
qed

theorem load_avg_once_per_second_witness:
  "\<exists>k'. timer_interrupt calculate_priority_mlfqs example_kernel = Inr k' \<and> ticks k' = 100 \<and>
        sint (LOAD_AVG k') = 546 \<and> spec_load_avg 0 2 = 546"
proof -
  from example_tick_result obtain k' where
    e: "timer_interrupt calculate_priority_mlfqs example_kernel = Inr k'"
    and t: "ticks k' = 100" by blast
  have r: "ready_threads example_kernel = 2"
    by (simp add: ready_threads_def example_defs)
  have v: "spec_load_avg 0 2 = 546"
    by (simp add: spec_load_avg_def fx_defs)
  from load_avg_once_per_second [OF e] e t r v show ?thesis
    by (auto simp: TIMER_FREQ_def example_kernel_def)
qed

text \<open>
  Claim C7.  At every timer tick the \<^verbatim>\<open>recent_cpu\<close> of the running thread is increased by
  fixed-point one unless the running thread is the idle thread (\<open>charged_recent_cpu\<close>); and
  when the tick counter has become a multiple of \<^verbatim>\<open>TIMER_FREQ\<close>, the \<^verbatim>\<open>recent_cpu\<close> of every
  thread of the all-threads list is then reassigned
  \<open>(2 * load_avg) / (2 * load_avg + 1) * recent_cpu + nice\<close> in fixed point, with the load
  average just recomputed.
\<close>

theorem recent_cpu_accounting:
  assumes "timer_interrupt cp k = Inr k'" and "distinct (all_list k)"
  shows "sint (recent_cpu (threads k' t)) =
         (if sint TIMER_FREQ dvd sint (ticks k') \<and> t \<in> set (all_list k)
          then spec_recent_cpu (sint (LOAD_AVG k')) (charged_recent_cpu k t)
                 (sint (nice_value (threads k t)))
          else charged_recent_cpu k t)"
proof -
  from assms(1) obtain k4 where p: "per_second (tick_charge k) = Inr k4"
    and w: "wake_sleeping_threads (sleeping_threads (every_fourth cp k4)) (every_fourth cp k4) = Inr k'"
    by (rule timer_interrupt_decompose)
  have la: "LOAD_AVG k' = LOAD_AVG k4"
    using wake_frame [OF w] every_fourth_unchanged [of k4 cp] by simp
  have tk: "ticks k' = ticks (tick_charge k)"
    using timer_interrupt_ticks [OF assms(1)] by (simp add: tick_charge_globals)
  have rc: "recent_cpu (threads k' t) = recent_cpu (threads k4 t)"
    using wake_thread_fields [OF w, of t] every_fourth_unchanged [of k4 cp] by simp
  have d: "distinct (all_list (tick_charge k))"
    using assms(2) by (simp add: tick_charge_globals)
  have nice: "nice_value (threads (tick_charge k) t) = nice_value (threads k t)"
    by (simp add: tick_charge_threads)
  show ?thesis
    using per_second_recent_cpu [OF p d, of t]
    by (simp add: rc la tk smod64_eq_0_iff sint_charged nice tick_charge_globals)
qed

theorem recent_cpu_accounting_witness:
  "\<exists>k'. timer_interrupt calculate_priority_mlfqs example_kernel = Inr k' \<and> ticks k' = 100 \<and>
        distinct (all_list example_kernel) \<and>
        charged_recent_cpu example_kernel 1 = 16384 \<and>
        sint (recent_cpu (threads k' 1)) = spec_recent_cpu 546 16384 0 \<and>
        spec_recent_cpu 546 16384 0 = 1023"
proof -
  from example_tick_result obtain k' where
    e: "timer_interrupt calculate_priority_mlfqs example_kernel = Inr k'"
    and t: "ticks k' = 100" and l: "LOAD_AVG k' = 546" by blast
  have d: "distinct (all_list example_kernel)" by (simp add: example_defs)
  have c: "charged_recent_cpu example_kernel 1 = 16384"
    by (simp add: charged_recent_cpu_def example_defs fx_defs)
  have v: "spec_recent_cpu 546 16384 0 = 1023"
    by (simp add: spec_recent_cpu_def fx_defs)
  from recent_cpu_accounting [OF e d, of 1] e t l d c v show ?thesis
    by (auto simp: TIMER_FREQ_def example_defs)
qed

text \<open>
  Claim C8, as amended.  When a timer interrupt brings the tick counter to a multiple of 4,
  the priority of every thread of the all-threads list other than the idle thread is set to
  \<open>PRI_MAX - (recent_cpu / 4) - (nice * 2)\<close> clamped to \<open>[PRI_MIN, PRI_MAX] = [0, 63]\<close>; the
  priority of the idle thread, and every priority on the other ticks, is left as it was.
\<close>

theorem priority_every_fourth_tick:
  assumes "timer_interrupt calculate_priority_mlfqs k = Inr k'"
  shows "priority (threads k' t) =
           (if 4 dvd sint (ticks k') \<and> t \<in> set (all_list k) \<and> t \<noteq> idle_thread k
            then mlfqs_priority (recent_cpu (threads k' t)) (nice_value (threads k' t))
            else priority (threads k t)) \<and>
         PRI_MIN \<le>s mlfqs_priority rc nice \<and> mlfqs_priority rc nice \<le>s PRI_MAX"
proof -
  let ?cp = calculate_priority_mlfqs
  from assms obtain k4 where p: "per_second (tick_charge k) = Inr k4"
    and w: "wake_sleeping_threads (sleeping_threads (every_fourth ?cp k4)) (every_fourth ?cp k4) = Inr k'"
    by (rule timer_interrupt_decompose)
  from per_second_unchanged [OF p] have u: "sched_unchanged (tick_charge k) k4"
    and pr: "priority (threads k4 t) = priority (threads k t)"
    by (simp_all add: tick_charge_threads)
  from u have g: "ticks k4 = ticks k + 1" "all_list k4 = all_list k" "idle_thread k4 = idle_thread k"
    by (simp_all add: sched_unchanged_def tick_charge_globals)
  have tk: "ticks k' = ticks k + 1" by (rule timer_interrupt_ticks [OF assms])
  have f5: "recent_cpu (threads k' t) = recent_cpu (threads k4 t)"
    "nice_value (threads k' t) = nice_value (threads k4 t)"
    "priority (threads k' t) = priority (threads (every_fourth ?cp k4) t)"
    using wake_thread_fields [OF w, of t] every_fourth_unchanged [of k4 ?cp]
    by (simp_all add: sched_unchanged_def)
  have "priority (threads k' t) =
           (if 4 dvd sint (ticks k') \<and> t \<in> set (all_list k) \<and> t \<noteq> idle_thread k
            then mlfqs_priority (recent_cpu (threads k' t)) (nice_value (threads k' t))
            else priority (threads k t))"
    unfolding f5 tk
    by (simp add: every_fourth_def update_priority_for_all_threads_def get_all_list_def
        update_priority_loop_mlfqs smod64_eq_0_iff g pr)
  with mlfqs_priority_range [of rc nice] show ?thesis by blast
qed

theorem priority_every_fourth_tick_witness:
  "\<exists>k'. timer_interrupt calculate_priority_mlfqs example_kernel = Inr k' \<and> ticks k' = 100 \<and>
        priority (threads k' 2) = mlfqs_priority 82943 5 \<and> mlfqs_priority 82943 5 = 51 \<and>
        priority (threads k' 0) = priority (threads example_kernel 0)"
proof -
  from example_tick_result obtain k' where
    e: "timer_interrupt calculate_priority_mlfqs example_kernel = Inr k'"
    and t: "ticks k' = 100"
    and t2: "threads k' 2 = \<lparr>status = THREAD_READY, priority = 51, nice_value = 5, recent_cpu = 82943\<rparr>"
    by blast
  have v: "mlfqs_priority 82943 5 = 51"
    by (simp add: model_defs)
  from priority_every_fourth_tick [OF e, of 2] priority_every_fourth_tick [OF e, of 0] e t t2 v
  show ?thesis
    by (auto simp: example_defs)
qed

text \<open>The idle thread is skipped: in the example state its priority stays 0 at tick 100,
  while the formula gives 63 for its \<^verbatim>\<open>recent_cpu\<close> and \<^verbatim>\<open>nice\<close> (both 0).\<close>

theorem idle_priority_counterexample:
  "idle_thread example_kernel = 0 \<and> ticks example_kernel = 99 \<and>
   thread_after_tick calculate_priority_mlfqs example_kernel 0 =
     Inr \<lparr>status = THREAD_BLOCKED, priority = 0, nice_value = 0, recent_cpu = 0\<rparr> \<and>
   mlfqs_priority 0 0 = 63"
  by (simp add: thread_after_tick_def model_defs example_defs)

text \<open>
  Claim C9.  For every \<open>n\<close> (in particular \<open>n > 0\<close>): called with interrupts enabled by the
  running thread, \<^verbatim>\<open>timer_sleep\<close> returns, whatever the rest of the system does while the
  caller is blocked; and whenever it returns, the interrupt level is the level at entry,
  which is \<^verbatim>\<open>INTR_ON\<close>.  The only other exits are failed assertions, which do not return.
\<close>

theorem timer_sleep_restores_interrupt_level:
  "(level k = INTR_ON \<and> status (threads k (running k)) = THREAD_RUNNING \<longrightarrow>
      (\<exists>k'. timer_sleep others n k = Inr k')) \<and>
   (\<forall>k'. timer_sleep others n k = Inr k' \<longrightarrow> level k' = level k \<and> level k' = INTR_ON)"
  using timer_sleep_returns [of k others n]
  by (auto simp: timer_sleep_def bindE_Inr_iff timer_sleep_enter_Inr intr_set_level_def)

theorem timer_sleep_restores_interrupt_level_witness:
  "level example_kernel = INTR_ON \<and>
   (\<exists>k'. timer_sleep thread_yield 5 example_kernel = Inr k' \<and> level k' = INTR_ON)"
  using timer_sleep_restores_interrupt_level [of example_kernel thread_yield 5]
  by (auto simp: example_defs)

text \<open>
  Claim C10, as amended.  For every \<^verbatim>\<open>int\<close> \<open>n\<close> such that \<open>n * 16384\<close> fits in a 32-bit
  signed integer, converting \<open>n\<close> to fixed point and back with the round-toward-zero
  conversion yields \<open>n\<close>; the round-to-nearest conversion yields \<open>n\<close> as well, except at
  \<open>n = -131072\<close>, where \<^verbatim>\<open>x - FIXED_POINT_FACTOR / 2\<close> leaves the 32-bit range.
\<close>

theorem fixed_point_roundtrip:
  assumes "- (2 ^ 31) \<le> sint n * 16384" and "sint n * 16384 < 2 ^ 31"
  shows "convert_fixed_point_to_int_round_towards_zero (convert_int_to_fixed_point n) = n \<and>
         (n \<noteq> - 131072 \<longrightarrow>
            convert_fixed_point_to_int_round_to_nearest (convert_int_to_fixed_point n) = n)"
proof (intro conjI impI)
  show "convert_fixed_point_to_int_round_towards_zero (convert_int_to_fixed_point n) = n"
    using assms by (rule round_towards_zero_roundtrip)
next
  assume "n \<noteq> - 131072"
  with assms show "convert_fixed_point_to_int_round_to_nearest (convert_int_to_fixed_point n) = n"
    by (rule round_to_nearest_roundtrip)
qed

theorem fixed_point_roundtrip_witness:
  "convert_fixed_point_to_int_round_towards_zero (convert_int_to_fixed_point (- 7)) = - 7 \<and>
   convert_fixed_point_to_int_round_to_nearest (convert_int_to_fixed_point (- 7)) = - 7"
  using fixed_point_roundtrip [of "- 7"] by simp

text \<open>
  The round trip fails for the round-to-nearest conversion at \<open>n = -131072\<close>, although
  \<open>n * 16384 = - 2 ^ 31\<close> fits in a 32-bit signed integer: the result is \<open>131071\<close>.
\<close>

theorem fixed_point_roundtrip_nearest_counterexample:
  "- (2 ^ 31) \<le> sint (- 131072 :: int32_t) * 16384 \<and>
   sint (- 131072 :: int32_t) * 16384 < 2 ^ 31 \<and>
   convert_fixed_point_to_int_round_to_nearest (convert_int_to_fixed_point (- 131072)) = 131071 \<and>
   convert_fixed_point_to_int_round_to_nearest (convert_int_to_fixed_point (- 131072))
     \<noteq> - 131072"
  by (simp add: convert_fixed_point_to_int_round_to_nearest_def convert_int_to_fixed_point_def
      sdiv32_def FIXED_POINT_FACTOR_def word_sle_eq)

end
